theory Spec2Isabelle
  imports Main "HOL-Library.Word" "HOL-Library.AList"
begin

section \<open>Builder elimination (opt/remove-builders/RemoveBuildersHelper.cpp)\<close>

text \<open>
  A shallow embedding of \<^verbatim>\<open>RemoveBuildersHelper.cpp\<close>: the transfer function
  \<^verbatim>\<open>fields_mapping\<close>, the lattice meet \<^verbatim>\<open>FieldsRegs::meet\<close>, the register-frame
  check \<^verbatim>\<open>enlarge_register_frame\<close>, the two public entry points \<^verbatim>\<open>inline_build\<close>
  and \<^verbatim>\<open>remove_builder\<close>, and the helpers they call. Registers are
  \<^verbatim>\<open>uint16_t\<close> in the source and \<open>16 word\<close> here; where the source computes in
  \<^verbatim>\<open>int\<close> (integer promotion) the model computes on \<open>unat\<close>.
\<close>

subsection \<open>Symbols: types, fields, methods\<close>

type_synonym reg = "16 word"

type_synonym DexType = string

text \<open>
  \<^verbatim>\<open>DexField*\<close> and \<^verbatim>\<open>DexMethod*\<close> are interned by the symbol table: two pointers are
  equal exactly when class, name and type (or prototype) are. Pointer comparison in the
  source is equality of these values.
\<close>

datatype DexField = DexField (field_get_class: DexType) (field_get_name: string) (field_get_type: DexType)

datatype DexMethodRef = DexMethodRef (method_get_class: DexType) (method_get_name: string) (method_get_proto: string)

subsection \<open>Instructions\<close>

datatype DexOpcode =
    OPCODE_NOP
  | OPCODE_MOVE | OPCODE_MOVE_WIDE | OPCODE_MOVE_OBJECT
  | OPCODE_MOVE_RESULT | OPCODE_MOVE_RESULT_WIDE | OPCODE_MOVE_RESULT_OBJECT
  | OPCODE_RETURN_VOID | OPCODE_RETURN | OPCODE_RETURN_WIDE | OPCODE_RETURN_OBJECT
  | OPCODE_CONST_4 | OPCODE_CONST_16 | OPCODE_CONST_WIDE
  | OPCODE_CHECK_CAST | OPCODE_NEW_INSTANCE
  | OPCODE_GOTO | OPCODE_IF_EQZ
  | OPCODE_ADD_INT | OPCODE_ADD_LONG
  | OPCODE_IGET | OPCODE_IGET_WIDE | OPCODE_IGET_OBJECT | OPCODE_IGET_BOOLEAN
  | OPCODE_IGET_BYTE | OPCODE_IGET_CHAR | OPCODE_IGET_SHORT
  | OPCODE_IPUT | OPCODE_IPUT_WIDE | OPCODE_IPUT_OBJECT | OPCODE_IPUT_BOOLEAN
  | OPCODE_IPUT_BYTE | OPCODE_IPUT_CHAR | OPCODE_IPUT_SHORT
  | OPCODE_INVOKE_VIRTUAL | OPCODE_INVOKE_SUPER | OPCODE_INVOKE_DIRECT
  | OPCODE_INVOKE_STATIC | OPCODE_INVOKE_INTERFACE

text \<open>
  Modelled from the spec: \<^verbatim>\<open>is_iput\<close>, \<^verbatim>\<open>is_iget\<close> and \<^verbatim>\<open>is_invoke\<close> are declared in
  \<^verbatim>\<open>DexOpcode.h\<close>, which is not among the sources. They are the spec's instruction
  categories field-write, field-read and invoke-method (section 3).
\<close>

definition is_iput :: "DexOpcode \<Rightarrow> bool" where
  "is_iput op = (op \<in> {OPCODE_IPUT, OPCODE_IPUT_WIDE, OPCODE_IPUT_OBJECT, OPCODE_IPUT_BOOLEAN,
                        OPCODE_IPUT_BYTE, OPCODE_IPUT_CHAR, OPCODE_IPUT_SHORT})"

definition is_iget :: "DexOpcode \<Rightarrow> bool" where
  "is_iget op = (op \<in> {OPCODE_IGET, OPCODE_IGET_WIDE, OPCODE_IGET_OBJECT, OPCODE_IGET_BOOLEAN,
                        OPCODE_IGET_BYTE, OPCODE_IGET_CHAR, OPCODE_IGET_SHORT})"

definition is_invoke :: "DexOpcode \<Rightarrow> bool" where
  "is_invoke op = (op \<in> {OPCODE_INVOKE_VIRTUAL, OPCODE_INVOKE_SUPER, OPCODE_INVOKE_DIRECT,
                          OPCODE_INVOKE_STATIC, OPCODE_INVOKE_INTERFACE})"

text \<open>
  Modelled from the spec: \<^verbatim>\<open>IRInstruction\<close> and its subclasses are declared in
  \<^verbatim>\<open>IRInstruction.h\<close>, which is not among the sources. Section 3 of the spec makes an
  instruction a tagged variant that carries an opcode, an optional destination register,
  the source registers and, by category, a field, type or method reference. The first
  component of every constructor is the identity of the object (the source compares and
  hashes \<^verbatim>\<open>IRInstruction*\<close> pointers): two instructions at different addresses have
  different identities.

  \<^item> \<open>IRInstruction\<close>: an instruction with no reference: identity, opcode, destination
    register (if the opcode has one), whether the destination is wide, source registers,
    literal.
  \<^item> \<open>IRFieldGet\<close>: an \<^verbatim>\<open>IRFieldInstruction\<close> of the iget family: identity, opcode,
    destination register, object register, field.
  \<^item> \<open>IRFieldPut\<close>: an \<^verbatim>\<open>IRFieldInstruction\<close> of the iput family: identity, opcode,
    source register 0 (the value stored), object register, field.
  \<^item> \<open>IRTypeInstruction\<close>: identity, opcode, destination register, source registers, type.
  \<^item> \<open>IRMethodInstruction\<close>: identity, opcode, source registers, invoked method.
\<close>

datatype field_get_op = IGET | IGET_WIDE | IGET_OBJECT | IGET_BOOLEAN | IGET_BYTE | IGET_CHAR | IGET_SHORT

datatype field_put_op = IPUT | IPUT_WIDE | IPUT_OBJECT | IPUT_BOOLEAN | IPUT_BYTE | IPUT_CHAR | IPUT_SHORT

datatype invoke_op = INVOKE_VIRTUAL | INVOKE_SUPER | INVOKE_DIRECT | INVOKE_STATIC | INVOKE_INTERFACE

datatype type_op = CHECK_CAST | NEW_INSTANCE

datatype plain_op =
    NOP | MOVE | MOVE_WIDE | MOVE_OBJECT
  | MOVE_RESULT | MOVE_RESULT_WIDE | MOVE_RESULT_OBJECT
  | RETURN_VOID | RETURN | RETURN_WIDE | RETURN_OBJECT
  | CONST_4 | CONST_16 | CONST_WIDE | GOTO | IF_EQZ | ADD_INT | ADD_LONG

datatype IRInstruction =
    IRInstruction nat plain_op "reg option" bool "reg list" int
  | IRFieldGet nat field_get_op reg reg DexField
  | IRFieldPut nat field_put_op reg reg DexField
  | IRTypeInstruction nat type_op "reg option" "reg list" DexType
  | IRMethodInstruction nat invoke_op "reg list" DexMethodRef

fun plain_opcode :: "plain_op \<Rightarrow> DexOpcode" where
  "plain_opcode NOP = OPCODE_NOP"
| "plain_opcode MOVE = OPCODE_MOVE"
| "plain_opcode MOVE_WIDE = OPCODE_MOVE_WIDE"
| "plain_opcode MOVE_OBJECT = OPCODE_MOVE_OBJECT"
| "plain_opcode MOVE_RESULT = OPCODE_MOVE_RESULT"
| "plain_opcode MOVE_RESULT_WIDE = OPCODE_MOVE_RESULT_WIDE"
| "plain_opcode MOVE_RESULT_OBJECT = OPCODE_MOVE_RESULT_OBJECT"
| "plain_opcode RETURN_VOID = OPCODE_RETURN_VOID"
| "plain_opcode RETURN = OPCODE_RETURN"
| "plain_opcode RETURN_WIDE = OPCODE_RETURN_WIDE"
| "plain_opcode RETURN_OBJECT = OPCODE_RETURN_OBJECT"
| "plain_opcode CONST_4 = OPCODE_CONST_4"
| "plain_opcode CONST_16 = OPCODE_CONST_16"
| "plain_opcode CONST_WIDE = OPCODE_CONST_WIDE"
| "plain_opcode GOTO = OPCODE_GOTO"
| "plain_opcode IF_EQZ = OPCODE_IF_EQZ"
| "plain_opcode ADD_INT = OPCODE_ADD_INT"
| "plain_opcode ADD_LONG = OPCODE_ADD_LONG"

fun iget_opcode :: "field_get_op \<Rightarrow> DexOpcode" where
  "iget_opcode IGET = OPCODE_IGET"
| "iget_opcode IGET_WIDE = OPCODE_IGET_WIDE"
| "iget_opcode IGET_OBJECT = OPCODE_IGET_OBJECT"
| "iget_opcode IGET_BOOLEAN = OPCODE_IGET_BOOLEAN"
| "iget_opcode IGET_BYTE = OPCODE_IGET_BYTE"
| "iget_opcode IGET_CHAR = OPCODE_IGET_CHAR"
| "iget_opcode IGET_SHORT = OPCODE_IGET_SHORT"

fun iput_opcode :: "field_put_op \<Rightarrow> DexOpcode" where
  "iput_opcode IPUT = OPCODE_IPUT"
| "iput_opcode IPUT_WIDE = OPCODE_IPUT_WIDE"
| "iput_opcode IPUT_OBJECT = OPCODE_IPUT_OBJECT"
| "iput_opcode IPUT_BOOLEAN = OPCODE_IPUT_BOOLEAN"
| "iput_opcode IPUT_BYTE = OPCODE_IPUT_BYTE"
| "iput_opcode IPUT_CHAR = OPCODE_IPUT_CHAR"
| "iput_opcode IPUT_SHORT = OPCODE_IPUT_SHORT"

fun invoke_opcode :: "invoke_op \<Rightarrow> DexOpcode" where
  "invoke_opcode INVOKE_VIRTUAL = OPCODE_INVOKE_VIRTUAL"
| "invoke_opcode INVOKE_SUPER = OPCODE_INVOKE_SUPER"
| "invoke_opcode INVOKE_DIRECT = OPCODE_INVOKE_DIRECT"
| "invoke_opcode INVOKE_STATIC = OPCODE_INVOKE_STATIC"
| "invoke_opcode INVOKE_INTERFACE = OPCODE_INVOKE_INTERFACE"

fun type_opcode :: "type_op \<Rightarrow> DexOpcode" where
  "type_opcode CHECK_CAST = OPCODE_CHECK_CAST"
| "type_opcode NEW_INSTANCE = OPCODE_NEW_INSTANCE"

fun opcode :: "IRInstruction \<Rightarrow> DexOpcode" where
  "opcode (IRInstruction _ op _ _ _ _) = plain_opcode op"
| "opcode (IRFieldGet _ op _ _ _) = iget_opcode op"
| "opcode (IRFieldPut _ op _ _ _) = iput_opcode op"
| "opcode (IRTypeInstruction _ op _ _ _) = type_opcode op"
| "opcode (IRMethodInstruction _ op _ _) = invoke_opcode op"

text \<open>\<^verbatim>\<open>dests_size()\<close> is non-zero exactly when \<open>dest_opt\<close> is \<open>Some d\<close>, and then
  \<^verbatim>\<open>dest()\<close> is \<open>d\<close>.\<close>

fun dest_opt :: "IRInstruction \<Rightarrow> reg option" where
  "dest_opt (IRInstruction _ _ d _ _ _) = d"
| "dest_opt (IRFieldGet _ _ d _ _) = Some d"
| "dest_opt (IRFieldPut _ _ _ _ _) = None"
| "dest_opt (IRTypeInstruction _ _ d _ _) = d"
| "dest_opt (IRMethodInstruction _ _ _ _) = None"

fun dest_is_wide :: "IRInstruction \<Rightarrow> bool" where
  "dest_is_wide (IRInstruction _ _ _ w _ _) = w"
| "dest_is_wide (IRFieldGet _ op _ _ _) = (op = IGET_WIDE)"
| "dest_is_wide _ = False"

subsection \<open>Method bodies, methods, classes\<close>

text \<open>
  Modelled from the spec: \<^verbatim>\<open>IRCode\<close>, \<^verbatim>\<open>MethodItemEntry\<close>, \<^verbatim>\<open>DexMethod\<close> and
  \<^verbatim>\<open>DexClass\<close> are declared in headers that are not among the sources. A method body
  is the ordered list of its entries; only entries of type \<^verbatim>\<open>MFLOW_OPCODE\<close> hold an
  instruction. The register-frame size counts the \<open>ins_size\<close> parameter registers, which
  are the highest-numbered ones (spec, section 3).
\<close>

datatype MethodItemEntry =
    MFLOW_OPCODE IRInstruction
  | MFLOW_TRY | MFLOW_CATCH | MFLOW_TARGET | MFLOW_DEBUG | MFLOW_POSITION | MFLOW_FALLTHROUGH

record IRCode =
  entries :: "MethodItemEntry list"
  registers_size :: "16 word"
  ins_size :: "16 word"

record DexMethod =
  get_ref :: DexMethodRef
  get_code :: "IRCode option"

record DexClass =
  get_type :: DexType
  get_ifields :: "DexField list"
  get_vmethods :: "DexMethod list"

text \<open>\<^verbatim>\<open>InstructionIterable(code)\<close>: the instructions of the body, in order.\<close>

fun InstructionIterable :: "MethodItemEntry list \<Rightarrow> IRInstruction list" where
  "InstructionIterable [] = []"
| "InstructionIterable (MFLOW_OPCODE insn # es) = insn # InstructionIterable es"
| "InstructionIterable (_ # es) = InstructionIterable es"

subsection \<open>The field-value lattice\<close>

text \<open>
  Modelled from the spec: \<^verbatim>\<open>enum FieldOrRegStatus\<close> and \<^verbatim>\<open>struct FieldsRegs\<close> are
  declared in \<^verbatim>\<open>RemoveBuildersHelper.h\<close>, which is not among the sources. The source
  stores in \<^verbatim>\<open>field_to_reg\<close> an \<^verbatim>\<open>int\<close> that is either a register number or one of
  the four statuses; section 3 of the spec lists the five states (\<open>DEFAULT\<close> is its
  Bottom), the statuses being distinct from every register number. \<^verbatim>\<open>field_to_iput_insn\<close>
  maps a field to the write that set it, or to \<^verbatim>\<open>nullptr\<close> (\<open>None\<close>). The constructor
  \<^verbatim>\<open>FieldsRegs(builder)\<close> maps every instance field of the builder to \<open>DEFAULT\<close> and
  to no write ("the lattice's bottom-initialized state for every field", section 4.2).
\<close>

datatype FieldOrRegStatus = DEFAULT | UNDEFINED | DIFFERENT | OVERWRITTEN | Reg reg

record FieldsRegs =
  field_to_reg :: "DexField \<rightharpoonup> FieldOrRegStatus"
  field_to_iput_insn :: "DexField \<rightharpoonup> IRInstruction option"

definition FieldsRegs_init :: "DexClass \<Rightarrow> FieldsRegs" where
  "FieldsRegs_init builder =
     \<lparr> field_to_reg = map_of (map (\<lambda>ifield. (ifield, DEFAULT)) (get_ifields builder)),
       field_to_iput_insn = map_of (map (\<lambda>ifield. (ifield, None)) (get_ifields builder)) \<rparr>"

text \<open>
  \<^verbatim>\<open>pair.second == n\<close> for an \<^verbatim>\<open>int\<close> \<open>n \<ge> 0\<close>: true only of a register entry. The
  comparison is on \<^verbatim>\<open>int\<close>, so \<open>current_dest + 1\<close> does not wrap.
\<close>

fun status_equals_reg :: "FieldOrRegStatus \<Rightarrow> nat \<Rightarrow> bool" where
  "status_equals_reg (Reg r) n = (unat r = n)"
| "status_equals_reg _ n = False"

text \<open>
  Reading \<^verbatim>\<open>m[field]\<close> on a \<^verbatim>\<open>std::unordered_map\<close>: a missing key is inserted with a
  value-initialised entry, \<open>0\<close> for \<^verbatim>\<open>int\<close> (register 0) and \<^verbatim>\<open>nullptr\<close> for a pointer.
\<close>

definition reg_at :: "FieldsRegs \<Rightarrow> DexField \<Rightarrow> FieldOrRegStatus" where
  "reg_at fregs field = (case field_to_reg fregs field of None \<Rightarrow> Reg 0 | Some v \<Rightarrow> v)"

definition iput_insn_at :: "FieldsRegs \<Rightarrow> DexField \<Rightarrow> IRInstruction option" where
  "iput_insn_at fregs field = (case field_to_iput_insn fregs field of None \<Rightarrow> None | Some w \<Rightarrow> w)"

subsection \<open>The transfer function\<close>

text \<open>The first loop of \<^verbatim>\<open>fields_mapping\<close>, on one entry: \<open>DEFAULT\<close> becomes \<open>UNDEFINED\<close>.\<close>

definition default_to_undefined :: "FieldOrRegStatus \<Rightarrow> FieldOrRegStatus" where
  "default_to_undefined v = (if v = DEFAULT then UNDEFINED else v)"

text \<open>
  The second loop, on one entry, for an instruction with destination \<open>current_dest\<close>:
  the two tests are made in the source's order, the second on the entry as the first
  left it.
\<close>

definition overwritten_by :: "reg \<Rightarrow> bool \<Rightarrow> FieldOrRegStatus \<Rightarrow> FieldOrRegStatus" where
  "overwritten_by current_dest wide v =
     (let v1 = (if status_equals_reg v (unat current_dest) then OVERWRITTEN else v)
      in if wide then (if status_equals_reg v1 (unat current_dest + 1) then OVERWRITTEN else v1)
         else v1)"

text \<open>
  Both loops visit every pair of \<^verbatim>\<open>field_to_reg\<close> once and assign only to the visited
  key, so each is the pointwise image of the map.
\<close>

definition fields_mapping :: "IRInstruction \<Rightarrow> FieldsRegs \<Rightarrow> DexClass \<Rightarrow> bool \<Rightarrow> FieldsRegs" where
  "fields_mapping insn fregs builder is_setter =
     (let fregs1 = fregs\<lparr>field_to_reg := map_option default_to_undefined \<circ> field_to_reg fregs\<rparr>;
          fregs2 = (case dest_opt insn of
                      None \<Rightarrow> fregs1
                    | Some current_dest \<Rightarrow>
                        fregs1\<lparr>field_to_reg :=
                          map_option (overwritten_by current_dest (dest_is_wide insn)) \<circ> field_to_reg fregs1\<rparr>)
      in if (is_setter \<and> is_iput (opcode insn)) \<or> (\<not> is_setter \<and> is_iget (opcode insn)) then
           (case insn of
              IRFieldPut _ _ src0 _ field \<Rightarrow>
                if field_get_class field = get_type builder then
                  fregs2\<lparr>field_to_reg := (field_to_reg fregs2)(field \<mapsto> Reg src0),
                         field_to_iput_insn := (field_to_iput_insn fregs2)(field \<mapsto> Some insn)\<rparr>
                else fregs2
            | IRFieldGet _ _ dest _ field \<Rightarrow>
                if field_get_class field = get_type builder then
                  fregs2\<lparr>field_to_reg := (field_to_reg fregs2)(field \<mapsto> Reg dest)\<rparr>
                else fregs2
            | _ \<Rightarrow> fregs2)
         else fregs2)"

subsection \<open>The meet\<close>

datatype error = OutOfRange | AssertionFailed

text \<open>
  \<^verbatim>\<open>FieldsRegs::meet\<close> visits every pair of \<^verbatim>\<open>this->field_to_reg\<close>. \<^verbatim>\<open>that.m.at(k)\<close>
  throws \<^verbatim>\<open>std::out_of_range\<close> on a missing key: \<open>meet_throws\<close> says that some visited
  key makes a lookup throw. Otherwise every visited key is updated from its own entries
  only: \<open>meet_reg\<close> and \<open>meet_iput_insn\<close> are the loop body on the entries of one key
  (\<open>a\<close>, \<open>wa\<close> of \<^verbatim>\<open>this\<close>; \<open>b\<close>, \<open>wb\<close> of \<^verbatim>\<open>that\<close>).
\<close>

definition meet_reg :: "FieldOrRegStatus \<Rightarrow> FieldOrRegStatus \<Rightarrow> FieldOrRegStatus" where
  "meet_reg a b =
     (if a = DEFAULT then b
      else if b = DEFAULT then a
      else if a \<noteq> b then DIFFERENT
      else a)"

definition meet_iput_insn ::
  "FieldOrRegStatus \<Rightarrow> IRInstruction option option \<Rightarrow> FieldOrRegStatus \<Rightarrow> IRInstruction option option
     \<Rightarrow> IRInstruction option option" where
  "meet_iput_insn a wa b wb =
     (if a = DEFAULT then wb
      else if b = DEFAULT then wa
      else if a \<noteq> b then Some None
      else wa)"

definition meet_throws :: "FieldsRegs \<Rightarrow> FieldsRegs \<Rightarrow> bool" where
  "meet_throws this that =
     (\<exists>k \<in> dom (field_to_reg this).
        k \<notin> dom (field_to_reg that) \<or>
        (field_to_reg this k = Some DEFAULT \<and> k \<notin> dom (field_to_iput_insn that)))"

definition FieldsRegs_meet :: "FieldsRegs \<Rightarrow> FieldsRegs \<Rightarrow> error + FieldsRegs" where
  "FieldsRegs_meet this that =
     (if meet_throws this that then Inl OutOfRange
      else Inr \<lparr>
        field_to_reg = (\<lambda>k. case field_to_reg this k of
                              None \<Rightarrow> None
                            | Some a \<Rightarrow> Some (meet_reg a (the (field_to_reg that k)))),
        field_to_iput_insn = (\<lambda>k. case field_to_reg this k of
                              None \<Rightarrow> field_to_iput_insn this k
                            | Some a \<Rightarrow> meet_iput_insn a (field_to_iput_insn this k)
                                         (the (field_to_reg that k)) (field_to_iput_insn that k)) \<rparr>)"

text \<open>
  The meet of section 4.1 of the spec, in the spec's words, on the state of one field
  and its write reference: Bottom yields the other side; with an Undefined side the other
  side's write reference is carried along and Undefined is kept only if the other side
  provides no write; an Overwritten side dominates (section 9); the same register on both
  sides stays; two defined values that disagree give Different.
\<close>

definition meet_spec ::
  "FieldOrRegStatus \<times> IRInstruction option \<Rightarrow> FieldOrRegStatus \<times> IRInstruction option
     \<Rightarrow> FieldOrRegStatus \<times> IRInstruction option" where
  "meet_spec x y =
     (case (x, y) of ((a, wa), (b, wb)) \<Rightarrow>
        if a = DEFAULT then (b, wb)
        else if b = DEFAULT then (a, wa)
        else if a = UNDEFINED then (case wb of None \<Rightarrow> (UNDEFINED, None) | Some w \<Rightarrow> (b, Some w))
        else if b = UNDEFINED then (case wa of None \<Rightarrow> (UNDEFINED, None) | Some w \<Rightarrow> (a, Some w))
        else if a = DIFFERENT \<or> b = DIFFERENT then (DIFFERENT, None)
        else if a = OVERWRITTEN then (OVERWRITTEN, wa)
        else if b = OVERWRITTEN then (OVERWRITTEN, wb)
        else if a = b then (a, wa)
        else (DIFFERENT, None))"

subsection \<open>Collaborators that are not among the sources\<close>

text \<open>
  Modelled from the spec: \<^verbatim>\<open>type_class\<close> (\<^verbatim>\<open>DexUtil.h\<close>) is not among the sources. It
  looks a type up in the symbol table; the spec's "allocate-object instruction of the
  builder type" (section 4.3) is the test \<^verbatim>\<open>type_class(cls) == builder\<close>.
\<close>

definition type_class_is :: "DexType \<Rightarrow> DexClass \<Rightarrow> bool" where
  "type_class_is cls builder = (cls = get_type builder)"

fun insn_id :: "IRInstruction \<Rightarrow> nat" where
  "insn_id (IRInstruction n _ _ _ _ _) = n"
| "insn_id (IRFieldGet n _ _ _ _) = n"
| "insn_id (IRFieldPut n _ _ _ _) = n"
| "insn_id (IRTypeInstruction n _ _ _ _) = n"
| "insn_id (IRMethodInstruction n _ _ _) = n"

text \<open>\<^verbatim>\<open>new IRInstruction(...)\<close> returns an object that is none of the body's: its
  identity is larger than every identity in the body.\<close>

definition fresh_id :: "MethodItemEntry list \<Rightarrow> nat" where
  "fresh_id es = Suc (fold max (map insn_id (InstructionIterable es)) 0)"

text \<open>
  Modelled from the spec: \<^verbatim>\<open>IRCode::insert_after\<close>, \<^verbatim>\<open>IRCode::remove_opcode\<close> and
  \<^verbatim>\<open>IRCode::enlarge_regs\<close> are not among the sources. Section 4.3 (step E) and section
  4.5 of the spec: an insertion with no anchor goes to the method entry, an insertion
  with an anchor goes immediately after the anchor, one whose anchor is not in the body
  is folded (the body is unchanged), and a deleted instruction is removed from the
  body. Section 4.4: enlarging the register frame is pure bookkeeping on its size.
\<close>

fun insert_after_entries ::
  "IRInstruction \<Rightarrow> IRInstruction list \<Rightarrow> MethodItemEntry list \<Rightarrow> MethodItemEntry list" where
  "insert_after_entries position insns [] = []"
| "insert_after_entries position insns (e # es) =
     (if e = MFLOW_OPCODE position then e # map MFLOW_OPCODE insns @ es
      else e # insert_after_entries position insns es)"

definition insert_after :: "IRCode \<Rightarrow> IRInstruction option \<Rightarrow> IRInstruction list \<Rightarrow> IRCode" where
  "insert_after code position insns =
     (case position of
        None \<Rightarrow> code\<lparr>entries := map MFLOW_OPCODE insns @ entries code\<rparr>
      | Some pos \<Rightarrow> code\<lparr>entries := insert_after_entries pos insns (entries code)\<rparr>)"

definition remove_opcode :: "IRCode \<Rightarrow> IRInstruction \<Rightarrow> IRCode" where
  "remove_opcode code insn = code\<lparr>entries := removeAll (MFLOW_OPCODE insn) (entries code)\<rparr>"

definition enlarge_regs :: "IRCode \<Rightarrow> nat \<Rightarrow> IRCode" where
  "enlarge_regs code newregs = code\<lparr>registers_size := of_nat newregs\<rparr>"

subsection \<open>Helpers of the rewriting\<close>

text \<open>
  \<^verbatim>\<open>enlarge_register_frame\<close>, on the body of the method (its only caller has checked
  that the method has one). \<open>oldregs + extra_regs\<close> is an \<^verbatim>\<open>int\<close> in the source.
\<close>

definition enlarge_register_frame :: "IRCode \<Rightarrow> 16 word \<Rightarrow> bool \<times> IRCode" where
  "enlarge_register_frame code extra_regs =
     (let oldregs = unat (registers_size code);
          newregs = oldregs + unat extra_regs
      in if newregs > 16 then (False, code)
         else (True, enlarge_regs code newregs))"

text \<open>
  \<^verbatim>\<open>get_move_opcode\<close>; \<^verbatim>\<open>always_assert\<close> aborts the process. The move opcodes
  \<^verbatim>\<open>OPCODE_MOVE\<close>, \<^verbatim>\<open>OPCODE_MOVE_WIDE\<close>, \<^verbatim>\<open>OPCODE_MOVE_OBJECT\<close> are returned as the
  \<open>plain_op\<close> they construct an instruction with.
\<close>

definition get_move_opcode :: "IRInstruction \<Rightarrow> error + plain_op" where
  "get_move_opcode insn =
     (if \<not> is_iput (opcode insn) then Inl AssertionFailed
      else if opcode insn = OPCODE_IPUT_WIDE then Inr MOVE_WIDE
      else if opcode insn = OPCODE_IPUT_OBJECT then Inr MOVE_OBJECT
      else Inr MOVE)"

definition add_null_instr :: "IRCode \<Rightarrow> reg \<Rightarrow> IRCode" where
  "add_null_instr code r =
     (let insn = IRInstruction (fresh_id (entries code)) CONST_4 (Some r) False [] 0
      in insert_after code None [insn])"

definition add_move_instr :: "IRCode \<Rightarrow> IRInstruction \<Rightarrow> reg \<Rightarrow> reg \<Rightarrow> plain_op \<Rightarrow> IRCode" where
  "add_move_instr code position src_reg dest_reg move_opcode =
     (let insn = IRInstruction (fresh_id (entries code)) move_opcode (Some dest_reg)
                   (move_opcode = MOVE_WIDE) [src_reg] 0
      in insert_after code (Some position) [insn])"

text \<open>
  \<^verbatim>\<open>src(i)\<close> and \<^verbatim>\<open>dest()\<close>. The rewriting calls \<^verbatim>\<open>src(0)\<close> only on an iput and
  \<^verbatim>\<open>dest()\<close> only on an iget (lemma \<open>plan_keys_field_insns\<close> below).
\<close>

fun srcs :: "IRInstruction \<Rightarrow> reg list" where
  "srcs (IRInstruction _ _ _ _ ss _) = ss"
| "srcs (IRFieldGet _ _ _ obj _) = [obj]"
| "srcs (IRFieldPut _ _ s obj _) = [s, obj]"
| "srcs (IRTypeInstruction _ _ _ ss _) = ss"
| "srcs (IRMethodInstruction _ _ ss _) = ss"

definition src :: "IRInstruction \<Rightarrow> nat \<Rightarrow> reg" where
  "src insn i = srcs insn ! i"

definition dest :: "IRInstruction \<Rightarrow> reg" where
  "dest insn = the (dest_opt insn)"

text \<open>\<^verbatim>\<open>MoveList\<close>: an \<^verbatim>\<open>unordered_map\<close> from instruction to new register and move
  opcode, as an association list with one pair per key.\<close>

type_synonym MoveList = "(IRInstruction \<times> (reg \<times> plain_op)) list"

definition move_instr_for :: "IRCode \<Rightarrow> IRInstruction \<times> (reg \<times> plain_op) \<Rightarrow> IRCode" where
  "move_instr_for code move_elem =
     (let insn = fst move_elem;
          is_iput_insn = is_iput (opcode insn);
          new_reg = fst (snd move_elem);
          insn_reg = (if is_iput_insn then src insn 0 else dest insn);
          src_reg = (if is_iput_insn then insn_reg else new_reg);
          dest_reg = (if is_iput_insn then new_reg else insn_reg);
          move_opcode = snd (snd move_elem)
      in add_move_instr code insn src_reg dest_reg move_opcode)"

definition method_updates :: "IRCode \<Rightarrow> IRInstruction list \<Rightarrow> MoveList \<Rightarrow> IRCode" where
  "method_updates code deletes move_list =
     fold (\<lambda>insn c. remove_opcode c insn) deletes (fold (\<lambda>move_elem c. move_instr_for c move_elem) move_list code)"

subsection \<open>\<^verbatim>\<open>inline_build\<close>\<close>

definition get_build_method :: "DexMethod list \<Rightarrow> DexMethod option" where
  "get_build_method vmethods = find (\<lambda>vmethod. method_get_name (get_ref vmethod) = ''build'') vmethods"

text \<open>
  The first loop of \<^verbatim>\<open>inline_build\<close>: the invocations of the build method in the body,
  in order. With no build method (\<^verbatim>\<open>nullptr\<close>) no invocation matches.
\<close>

definition inlinables :: "IRCode \<Rightarrow> DexMethod option \<Rightarrow> (DexMethod \<times> IRInstruction) list" where
  "inlinables code build_method =
     (case build_method of
        None \<Rightarrow> []
      | Some bm \<Rightarrow>
          map (\<lambda>insn. (bm, insn))
            (filter (\<lambda>insn. is_invoke (opcode insn) \<and>
                       (case insn of IRMethodInstruction _ _ _ invoked \<Rightarrow> invoked = get_ref bm | _ \<Rightarrow> False))
               (InstructionIterable (entries code))))"

text \<open>
  \<^verbatim>\<open>IRCode::inline_method\<close> is not among the sources: it is the parameter
  \<open>inline_method\<close>, from the caller, the callee and the call instruction to its result
  and the caller as it leaves it.
\<close>

fun inline_all ::
  "(DexMethod \<Rightarrow> DexMethod \<Rightarrow> IRInstruction \<Rightarrow> bool \<times> DexMethod) \<Rightarrow> (DexMethod \<times> IRInstruction) list
     \<Rightarrow> DexMethod \<Rightarrow> bool \<times> DexMethod" where
  "inline_all inline_method [] method = (True, method)"
| "inline_all inline_method (inlinable # rest) method =
     (case inline_method method (fst inlinable) (snd inlinable) of
        (False, method') \<Rightarrow> (False, method')
      | (True, method') \<Rightarrow> inline_all inline_method rest method')"

definition inline_build ::
  "(DexMethod \<Rightarrow> DexMethod \<Rightarrow> IRInstruction \<Rightarrow> bool \<times> DexMethod) \<Rightarrow> DexMethod \<Rightarrow> DexClass
     \<Rightarrow> bool \<times> DexMethod" where
  "inline_build inline_method method builder =
     (case get_code method of
        None \<Rightarrow> (False, method)
      | Some code \<Rightarrow>
          (let build_method = get_build_method (get_vmethods builder);
               inls = inlinables code build_method
           in if length inls > 1 then (False, method)
              else inline_all inline_method inls method))"

subsection \<open>\<^verbatim>\<open>remove_builder\<close>: planning\<close>

text \<open>
  The locals of \<^verbatim>\<open>remove_builder\<close> that its loop updates. \<^verbatim>\<open>null_reg\<close> is an
  \<^verbatim>\<open>int\<close> that starts as \<^verbatim>\<open>FieldOrRegStatus::UNDEFINED\<close> (\<open>None\<close>) and is otherwise a
  register number, which is never a status. \<^verbatim>\<open>extra_regs\<close> is a \<^verbatim>\<open>uint16_t\<close>.
\<close>

record plan_state =
  extra_regs :: "16 word"
  null_reg :: "reg option"
  deletes :: "IRInstruction list"
  move_replacements :: MoveList

text \<open>How one pass of the loop body ends: an exception or failed assertion, \<^verbatim>\<open>return false\<close>,
  or the next iteration.\<close>

datatype 'a flow = Throws error | Returns_false | Goes_on 'a

type_synonym Block = "MethodItemEntry list"

text \<open>The branch of the loop body for a field-read on the builder.\<close>

definition plan_iget ::
  "FieldsRegs \<Rightarrow> 16 word \<Rightarrow> IRInstruction \<Rightarrow> DexField \<Rightarrow> plan_state \<Rightarrow> plan_state flow" where
  "plan_iget fields_in_insn non_input_reg_size insn field st =
     (if reg_at fields_in_insn field = DIFFERENT then Returns_false
      else if reg_at fields_in_insn field = UNDEFINED then
        (case null_reg st of
           None \<Rightarrow>
             Goes_on (st\<lparr>null_reg := Some (non_input_reg_size + extra_regs st),
                         extra_regs := extra_regs st + 1,
                         move_replacements :=
                           AList.update insn (non_input_reg_size + extra_regs st, MOVE) (move_replacements st),
                         deletes := deletes st @ [insn]\<rparr>)
         | Some r \<Rightarrow>
             Goes_on (st\<lparr>move_replacements := AList.update insn (r, MOVE) (move_replacements st),
                         deletes := deletes st @ [insn]\<rparr>))
      else
        (case iput_insn_at fields_in_insn field of
           None \<Rightarrow> Returns_false
         | Some iput_insn \<Rightarrow>
             (case get_move_opcode iput_insn of
                Inl e \<Rightarrow> Throws e
              | Inr move_opcode \<Rightarrow>
                  (let is_wide = (move_opcode = MOVE_WIDE) in
                   case map_of (move_replacements st) iput_insn of
                     Some found \<Rightarrow>
                       Goes_on (st\<lparr>move_replacements :=
                                     AList.update insn (fst found, move_opcode) (move_replacements st),
                                   deletes := deletes st @ [insn]\<rparr>)
                   | None \<Rightarrow>
                       if reg_at fields_in_insn field = OVERWRITTEN then
                         Goes_on (st\<lparr>move_replacements :=
                                       AList.update insn (non_input_reg_size + extra_regs st, move_opcode)
                                         (AList.update iput_insn (non_input_reg_size + extra_regs st, move_opcode)
                                            (move_replacements st)),
                                     extra_regs := extra_regs st + (if is_wide then 2 else 1),
                                     deletes := deletes st @ [insn]\<rparr>)
                       else
                         Goes_on (st\<lparr>move_replacements :=
                                       AList.update insn (src iput_insn 0, move_opcode) (move_replacements st),
                                     deletes := deletes st @ [insn]\<rparr>)))))"

text \<open>
  The loop body on one instruction. \<^verbatim>\<open>fields_in->at(mie.insn)\<close> is evaluated for every
  instruction and throws when the analysis has no entry for it.
\<close>

definition plan_insn ::
  "DexClass \<Rightarrow> (IRInstruction \<rightharpoonup> FieldsRegs) \<Rightarrow> 16 word \<Rightarrow> IRInstruction \<Rightarrow> plan_state \<Rightarrow> plan_state flow" where
  "plan_insn builder fields_in non_input_reg_size insn st =
     (case fields_in insn of
        None \<Rightarrow> Throws OutOfRange
      | Some fields_in_insn \<Rightarrow>
          if is_iput (opcode insn) then
            (case insn of
               IRFieldPut _ _ _ _ field \<Rightarrow>
                 if field_get_class field = get_type builder
                 then Goes_on (st\<lparr>deletes := deletes st @ [insn]\<rparr>)
                 else Goes_on st
             | _ \<Rightarrow> Goes_on st)
          else if is_iget (opcode insn) then
            (case insn of
               IRFieldGet _ _ _ _ field \<Rightarrow>
                 if field_get_class field = get_type builder
                 then plan_iget fields_in_insn non_input_reg_size insn field st
                 else Goes_on st
             | _ \<Rightarrow> Goes_on st)
          else if opcode insn = OPCODE_NEW_INSTANCE then
            (case insn of
               IRTypeInstruction _ _ _ _ cls \<Rightarrow>
                 if type_class_is cls builder
                 then Goes_on (st\<lparr>deletes := deletes st @ [insn]\<rparr>)
                 else Goes_on st
             | _ \<Rightarrow> Goes_on st)
          else if is_invoke (opcode insn) then
            (case insn of
               IRMethodInstruction _ _ _ invoked \<Rightarrow>
                 if method_get_class invoked = get_type builder \<and> method_get_name invoked = ''<init>''
                 then Goes_on (st\<lparr>deletes := deletes st @ [insn]\<rparr>)
                 else Goes_on st
             | _ \<Rightarrow> Goes_on st)
          else Goes_on st)"

fun plan_block ::
  "DexClass \<Rightarrow> (IRInstruction \<rightharpoonup> FieldsRegs) \<Rightarrow> 16 word \<Rightarrow> Block \<Rightarrow> plan_state \<Rightarrow> plan_state flow" where
  "plan_block builder fields_in n [] st = Goes_on st"
| "plan_block builder fields_in n (MFLOW_OPCODE insn # mies) st =
     (case plan_insn builder fields_in n insn st of
        Goes_on st' \<Rightarrow> plan_block builder fields_in n mies st'
      | Throws e \<Rightarrow> Throws e
      | Returns_false \<Rightarrow> Returns_false)"
| "plan_block builder fields_in n (_ # mies) st = plan_block builder fields_in n mies st"

fun plan_blocks ::
  "DexClass \<Rightarrow> (IRInstruction \<rightharpoonup> FieldsRegs) \<Rightarrow> 16 word \<Rightarrow> Block list \<Rightarrow> plan_state \<Rightarrow> plan_state flow" where
  "plan_blocks builder fields_in n [] st = Goes_on st"
| "plan_blocks builder fields_in n (block # blocks) st =
     (case plan_block builder fields_in n block st of
        Goes_on st' \<Rightarrow> plan_blocks builder fields_in n blocks st'
      | Throws e \<Rightarrow> Throws e
      | Returns_false \<Rightarrow> Returns_false)"

definition plan_init :: plan_state where
  "plan_init = \<lparr> extra_regs = 0, null_reg = None, deletes = [], move_replacements = [] \<rparr>"

subsection \<open>\<^verbatim>\<open>remove_builder\<close>\<close>

text \<open>
  \<^verbatim>\<open>build_cfg\<close>, \<^verbatim>\<open>postorder_sort\<close> (\<^verbatim>\<open>ControlFlow.h\<close>) and \<^verbatim>\<open>forwards_dataflow\<close>
  (\<^verbatim>\<open>Dataflow.h\<close>) are not among the sources. They are parameters:
  \<open>postorder_blocks\<close> gives the blocks of a body in the order the loop visits them, and
  \<open>forwards_dataflow\<close> gives, from the blocks, the initial state and the transfer
  function, the state of every instruction (or the exception it ends with). Neither
  changes the instructions or the register count of the method.
\<close>

type_synonym dataflow =
  "Block list \<Rightarrow> FieldsRegs \<Rightarrow> (IRInstruction \<Rightarrow> FieldsRegs \<Rightarrow> FieldsRegs) \<Rightarrow> error + (IRInstruction \<rightharpoonup> FieldsRegs)"

definition fields_setters :: "dataflow \<Rightarrow> Block list \<Rightarrow> DexClass \<Rightarrow> error + (IRInstruction \<rightharpoonup> FieldsRegs)" where
  "fields_setters forwards_dataflow blocks builder =
     forwards_dataflow blocks (FieldsRegs_init builder) (\<lambda>insn fregs. fields_mapping insn fregs builder True)"

text \<open>The part of \<^verbatim>\<open>remove_builder\<close> after the loop, on the body \<open>code\<close> of \<open>method\<close>.\<close>

definition commit_plan :: "DexMethod \<Rightarrow> IRCode \<Rightarrow> plan_state \<Rightarrow> bool \<times> DexMethod" where
  "commit_plan method code st =
     (case enlarge_register_frame code (extra_regs st) of
        (False, _) \<Rightarrow> (False, method)
      | (True, code1) \<Rightarrow>
          (let code2 = (case null_reg st of None \<Rightarrow> code1 | Some r \<Rightarrow> add_null_instr code1 r)
           in (True, method\<lparr>get_code := Some (method_updates code2 (deletes st) (move_replacements st))\<rparr>)))"

definition remove_builder ::
  "(IRCode \<Rightarrow> Block list) \<Rightarrow> dataflow \<Rightarrow> DexMethod \<Rightarrow> DexClass \<Rightarrow> DexClass \<Rightarrow> error + (bool \<times> DexMethod)" where
  "remove_builder postorder_blocks forwards_dataflow method builder buildee =
     (case get_code method of
        None \<Rightarrow> Inr (False, method)
      | Some code \<Rightarrow>
          (let blocks = postorder_blocks code in
           case fields_setters forwards_dataflow blocks builder of
             Inl e \<Rightarrow> Inl e
           | Inr fields_in \<Rightarrow>
               (let regs_size = registers_size code;
                    in_regs_size = ins_size code;
                    non_input_reg_size = regs_size - in_regs_size
                in case plan_blocks builder fields_in non_input_reg_size blocks plan_init of
                     Throws e \<Rightarrow> Inl e
                   | Returns_false \<Rightarrow> Inr (False, method)
                   | Goes_on st \<Rightarrow> Inr (commit_plan method code st))))"

subsection \<open>Notions the properties are stated with\<close>

text \<open>
  An instruction the rewriting marks for deletion: a field-write or field-read on a
  field of the builder, an allocation of the builder, or a call of a constructor of the
  builder (the four tests of the loop of \<^verbatim>\<open>remove_builder\<close>).
\<close>

definition touches_builder :: "DexClass \<Rightarrow> IRInstruction \<Rightarrow> bool" where
  "touches_builder builder insn =
     (case insn of
        IRFieldPut _ _ _ _ field \<Rightarrow> field_get_class field = get_type builder
      | IRFieldGet _ _ _ _ field \<Rightarrow> field_get_class field = get_type builder
      | IRTypeInstruction _ op _ _ cls \<Rightarrow> op = NEW_INSTANCE \<and> type_class_is cls builder
      | IRMethodInstruction _ _ _ invoked \<Rightarrow>
          method_get_class invoked = get_type builder \<and> method_get_name invoked = ''<init>''
      | IRInstruction _ _ _ _ _ _ \<Rightarrow> False)"

text \<open>
  For a field-read on the builder that the analysis has a state for: the state of the
  read field at the read, and the write the analysis recorded for it.
\<close>

definition read_state :: "DexClass \<Rightarrow> (IRInstruction \<rightharpoonup> FieldsRegs) \<Rightarrow> IRInstruction \<Rightarrow> FieldOrRegStatus option" where
  "read_state builder fields_in insn =
     (case insn of
        IRFieldGet _ _ _ _ field \<Rightarrow>
          if field_get_class field = get_type builder
          then map_option (\<lambda>fields_in_insn. reg_at fields_in_insn field) (fields_in insn)
          else None
      | _ \<Rightarrow> None)"

definition read_write :: "DexClass \<Rightarrow> (IRInstruction \<rightharpoonup> FieldsRegs) \<Rightarrow> IRInstruction \<Rightarrow> IRInstruction option" where
  "read_write builder fields_in insn =
     (case insn of
        IRFieldGet _ _ _ _ field \<Rightarrow>
          if field_get_class field = get_type builder
          then (case fields_in insn of None \<Rightarrow> None | Some fields_in_insn \<Rightarrow> iput_insn_at fields_in_insn field)
          else None
      | _ \<Rightarrow> None)"

text \<open>The instructions the loop of \<^verbatim>\<open>remove_builder\<close> visits, in its order.\<close>

definition visited :: "Block list \<Rightarrow> IRInstruction list" where
  "visited blocks = InstructionIterable (concat blocks)"


text \<open>
  The body that \<^verbatim>\<open>remove_builder\<close> leaves when its loop ends with the locals \<open>st\<close>
  and the register frame can be enlarged (lemma \<open>remove_builder_True\<close> below).
\<close>

definition committed :: "IRCode \<Rightarrow> plan_state \<Rightarrow> IRCode" where
  "committed code st =
     (let code1 = enlarge_regs code (unat (registers_size code) + unat (extra_regs st));
          code2 = (case null_reg st of None \<Rightarrow> code1 | Some r \<Rightarrow> add_null_instr code1 r)
      in method_updates code2 (deletes st) (move_replacements st))"

text \<open>The \<^verbatim>\<open>const/4\<close> instructions of a body, in order, and the one that
  \<^verbatim>\<open>add_null_instr\<close> creates for register \<open>r\<close> in the body \<open>code\<close>.\<close>

definition const4s :: "IRCode \<Rightarrow> IRInstruction list" where
  "const4s code = filter (\<lambda>i. opcode i = OPCODE_CONST_4) (InstructionIterable (entries code))"

definition null_const :: "IRCode \<Rightarrow> reg \<Rightarrow> IRInstruction" where
  "null_const code r = IRInstruction (fresh_id (entries code)) CONST_4 (Some r) False [] 0"

text \<open>
  Invariants of the loop of \<^verbatim>\<open>remove_builder\<close>, over the set \<open>S\<close> of the instructions
  visited so far. \<open>null_inv\<close>: every visited read in state \<open>UNDEFINED\<close> is mapped to a
  plain move from the null register, and the null register is allocated only if there
  is one. \<open>move_ops_ok\<close>: every planned move has a move opcode.
\<close>

definition null_inv ::
  "DexClass \<Rightarrow> (IRInstruction \<rightharpoonup> FieldsRegs) \<Rightarrow> IRInstruction set \<Rightarrow> plan_state \<Rightarrow> bool" where
  "null_inv b fi S st =
     ((\<forall>rd \<in> S. read_state b fi rd = Some UNDEFINED \<longrightarrow>
          (\<exists>r. null_reg st = Some r \<and> map_of (move_replacements st) rd = Some (r, MOVE)))
      \<and> (null_reg st \<noteq> None \<longrightarrow> (\<exists>rd \<in> S. read_state b fi rd = Some UNDEFINED)))"

definition move_ops_ok :: "MoveList \<Rightarrow> bool" where
  "move_ops_ok ml = (\<forall>me \<in> set ml. snd (snd me) \<in> {MOVE, MOVE_WIDE, MOVE_OBJECT})"

text \<open>\<open>reads_resolved\<close>: no visited read is in state \<open>DIFFERENT\<close>, and every visited read
  that is not in state \<open>UNDEFINED\<close> has an originating write, which is an iput.\<close>

definition reads_resolved ::
  "DexClass \<Rightarrow> (IRInstruction \<rightharpoonup> FieldsRegs) \<Rightarrow> IRInstruction set \<Rightarrow> plan_state \<Rightarrow> bool" where
  "reads_resolved b fi S st =
     (\<forall>rd \<in> S. \<forall>v. read_state b fi rd = Some v \<longrightarrow>
        v \<noteq> DIFFERENT
        \<and> (v = UNDEFINED \<or> (\<exists>w mop. read_write b fi rd = Some w \<and> get_move_opcode w = Inr mop)))"

text \<open>
  \<open>bridge_inv\<close>: a write that has a planned move has the move opcode of its own kind and
  is the originating write of a visited read in state \<open>OVERWRITTEN\<close>; every visited read
  in state \<open>OVERWRITTEN\<close> and its originating write are mapped to the same register
  with the same move opcode; no instruction has two planned moves.
\<close>

definition bridge_inv ::
  "DexClass \<Rightarrow> (IRInstruction \<rightharpoonup> FieldsRegs) \<Rightarrow> IRInstruction set \<Rightarrow> plan_state \<Rightarrow> bool" where
  "bridge_inv b fi S st =
     ((\<forall>k v. map_of (move_replacements st) k = Some v \<and> is_iput (opcode k)
          \<longrightarrow> get_move_opcode k = Inr (snd v)
            \<and> (\<exists>rd \<in> S. read_state b fi rd = Some OVERWRITTEN \<and> read_write b fi rd = Some k))
      \<and> (\<forall>rd \<in> S. read_state b fi rd = Some OVERWRITTEN \<longrightarrow>
            (\<exists>w x mop. read_write b fi rd = Some w \<and> get_move_opcode w = Inr mop
               \<and> map_of (move_replacements st) rd = Some (x, mop)
               \<and> map_of (move_replacements st) w = Some (x, mop)))
      \<and> distinct (map fst (move_replacements st)))"

text \<open>
  \<open>direct_inv\<close>: a visited read in state \<open>Reg r\<close> whose originating write has no
  planned move is mapped to the source register of that write; while no visited read is
  in state \<open>UNDEFINED\<close> or \<open>OVERWRITTEN\<close>, no register has been allocated.
\<close>

definition direct_inv ::
  "DexClass \<Rightarrow> (IRInstruction \<rightharpoonup> FieldsRegs) \<Rightarrow> IRInstruction set \<Rightarrow> plan_state \<Rightarrow> bool" where
  "direct_inv b fi S st =
     ((\<forall>rd \<in> S. \<forall>r w. read_state b fi rd = Some (Reg r) \<and> read_write b fi rd = Some w
          \<and> map_of (move_replacements st) w = None
          \<longrightarrow> (\<exists>mop. get_move_opcode w = Inr mop
                 \<and> map_of (move_replacements st) rd = Some (src w 0, mop)))
      \<and> ((\<forall>rd \<in> S. read_state b fi rd \<noteq> Some UNDEFINED \<and> read_state b fi rd \<noteq> Some OVERWRITTEN)
          \<longrightarrow> extra_regs st = 0 \<and> null_reg st = None))"



text \<open>
  \<open>write_consistent\<close>: a field with a recorded write has a state, and if the state is
  \<open>Reg r\<close> the recorded write is a field-write of that field from register \<open>r\<close>.
  \<open>overwrites\<close>: the instruction has a destination that is register \<open>r\<close> (or, if wide,
  the register before it). \<open>writes_field\<close>: the instruction is a field-write of the
  field \<open>f\<close> of the builder. \<open>transfer_entry\<close>: what \<^verbatim>\<open>fields_mapping\<close> does to the state
  of a field the instruction does not write.
\<close>

definition write_consistent :: "FieldsRegs \<Rightarrow> bool" where
  "write_consistent fregs =
     (\<forall>f w. field_to_iput_insn fregs f = Some (Some w) \<longrightarrow>
        field_to_reg fregs f \<noteq> None
        \<and> (\<forall>r. field_to_reg fregs f = Some (Reg r) \<longrightarrow> (\<exists>k op obj. w = IRFieldPut k op r obj f)))"

definition overwrites :: "IRInstruction \<Rightarrow> reg \<Rightarrow> bool" where
  "overwrites insn r =
     (case dest_opt insn of
        None \<Rightarrow> False
      | Some d \<Rightarrow> unat r = unat d \<or> (dest_is_wide insn \<and> unat r = unat d + 1))"

definition writes_field :: "DexClass \<Rightarrow> IRInstruction \<Rightarrow> DexField \<Rightarrow> bool" where
  "writes_field b insn f =
     (case insn of IRFieldPut _ _ _ _ g \<Rightarrow> g = f \<and> field_get_class g = get_type b | _ \<Rightarrow> False)"

definition transfer_entry :: "IRInstruction \<Rightarrow> FieldOrRegStatus \<Rightarrow> FieldOrRegStatus" where
  "transfer_entry insn v =
     (case dest_opt insn of
        None \<Rightarrow> default_to_undefined v
      | Some d \<Rightarrow> overwritten_by d (dest_is_wide insn) (default_to_undefined v))"

text \<open>
  An instruction that references the builder type, in the widest sense: its field
  operand is declared by the builder, its type operand is the builder type, or its
  method operand is a method of the builder. Every instruction that \<open>touches_builder\<close>
  holds of is one (lemma \<open>touches_references\<close> below); a call of a method of the builder
  that is not a constructor and a \<^verbatim>\<open>check-cast\<close> to the builder type are others.
\<close>

definition references_builder :: "DexClass \<Rightarrow> IRInstruction \<Rightarrow> bool" where
  "references_builder builder insn =
     (case insn of
        IRFieldPut _ _ _ _ field \<Rightarrow> field_get_class field = get_type builder
      | IRFieldGet _ _ _ _ field \<Rightarrow> field_get_class field = get_type builder
      | IRTypeInstruction _ _ _ _ cls \<Rightarrow> cls = get_type builder
      | IRMethodInstruction _ _ _ invoked \<Rightarrow> method_get_class invoked = get_type builder
      | IRInstruction _ _ _ _ _ _ \<Rightarrow> False)"

subsection \<open>Example objects\<close>

text \<open>A builder class with an \<^verbatim>\<open>int\<close> field \<open>x\<close> and a \<^verbatim>\<open>long\<close> field \<open>y\<close>, used
  where a theorem is instantiated at a concrete input.\<close>

definition ex_x :: DexField where
  "ex_x = DexField ''LBuilder;'' ''x'' ''I''"

definition ex_y :: DexField where
  "ex_y = DexField ''LBuilder;'' ''y'' ''J''"

definition ex_builder :: DexClass where
  "ex_builder = \<lparr> get_type = ''LBuilder;'', get_ifields = [ex_x, ex_y], get_vmethods = [] \<rparr>"

text \<open>
  A control-flow graph and an analysis for bodies of one block, used in the examples:
  the body is its only block, and the state of an instruction is the state that the
  transfer function, applied from left to right to the initial state, has reached
  before it.
\<close>

definition ex_blocks :: "IRCode \<Rightarrow> Block list" where
  "ex_blocks code = [entries code]"

fun straightline_states ::
  "(IRInstruction \<Rightarrow> FieldsRegs \<Rightarrow> FieldsRegs) \<Rightarrow> FieldsRegs \<Rightarrow> IRInstruction list \<Rightarrow> (IRInstruction \<rightharpoonup> FieldsRegs)" where
  "straightline_states transfer s [] = Map.empty"
| "straightline_states transfer s (insn # insns) =
     (straightline_states transfer (transfer insn s) insns)(insn \<mapsto> s)"

definition ex_dataflow :: dataflow where
  "ex_dataflow blocks bottom transfer =
     Inr (straightline_states transfer bottom (InstructionIterable (concat blocks)))"

text \<open>An analysis that finds field \<open>x\<close> written from different registers at every
  instruction.\<close>

definition ex_dataflow_different :: dataflow where
  "ex_dataflow_different blocks bottom transfer =
     Inr (\<lambda>insn. Some \<lparr>field_to_reg = [ex_x \<mapsto> DIFFERENT], field_to_iput_insn = [ex_x \<mapsto> None]\<rparr>)"

text \<open>
  Instructions: the allocation of a builder in \<open>v1\<close>, the call of its constructor, a
  write of field \<open>x\<close> from \<open>v0\<close>, an instruction that overwrites \<open>v0\<close>, two reads of
  \<open>x\<close> (into \<open>v2\<close> and into \<open>v0\<close>), and a return.
\<close>

definition ex_new :: IRInstruction where
  "ex_new = IRTypeInstruction 0 NEW_INSTANCE (Some 1) [] ''LBuilder;''"

definition ex_init :: IRInstruction where
  "ex_init = IRMethodInstruction 1 INVOKE_DIRECT [1] (DexMethodRef ''LBuilder;'' ''<init>'' ''()V'')"

definition ex_put :: IRInstruction where
  "ex_put = IRFieldPut 2 IPUT 0 1 ex_x"

definition ex_clobber :: IRInstruction where
  "ex_clobber = IRInstruction 3 CONST_4 (Some 0) False [] 7"

definition ex_get :: IRInstruction where
  "ex_get = IRFieldGet 4 IGET 2 1 ex_x"

definition ex_get2 :: IRInstruction where
  "ex_get2 = IRFieldGet 5 IGET 0 1 ex_x"

definition ex_ret :: IRInstruction where
  "ex_ret = IRInstruction 6 RETURN None False [2] 0"

text \<open>
  Bodies with four registers, one of them a parameter: write then read; write,
  overwrite, then two reads; a read with no write before it. The last is the same with
  a full frame of sixteen registers.
\<close>

definition ex_linear :: IRCode where
  "ex_linear = \<lparr> entries = map MFLOW_OPCODE [ex_new, ex_init, ex_put, ex_get, ex_ret],
                 registers_size = 4, ins_size = 1 \<rparr>"

definition ex_bridge :: IRCode where
  "ex_bridge = \<lparr> entries = map MFLOW_OPCODE [ex_new, ex_init, ex_put, ex_clobber, ex_get, ex_get2, ex_ret],
                 registers_size = 4, ins_size = 1 \<rparr>"

definition ex_undef :: IRCode where
  "ex_undef = \<lparr> entries = map MFLOW_OPCODE [ex_new, ex_init, ex_get, ex_ret],
                registers_size = 4, ins_size = 1 \<rparr>"

definition ex_full :: IRCode where
  "ex_full = \<lparr> entries = map MFLOW_OPCODE [ex_new, ex_init, ex_get, ex_ret],
               registers_size = 16, ins_size = 1 \<rparr>"

definition ex_method :: "IRCode option \<Rightarrow> DexMethod" where
  "ex_method code = \<lparr> get_ref = DexMethodRef ''LFoo;'' ''make'' ''()I'', get_code = code \<rparr>"

text \<open>
  A builder with a \<^verbatim>\<open>build\<close> method, a call of it, bodies with one and with two such
  calls, and two stand-ins for \<^verbatim>\<open>IRCode::inline_method\<close>: one that replaces the call by
  the (empty) body of the callee, one that fails.
\<close>

definition ex_build_method :: DexMethod where
  "ex_build_method =
     \<lparr> get_ref = DexMethodRef ''LBuilder;'' ''build'' ''()LFoo;'',
       get_code = Some \<lparr> entries = [], registers_size = 1, ins_size = 1 \<rparr> \<rparr>"

definition ex_builder_with_build :: DexClass where
  "ex_builder_with_build =
     \<lparr> get_type = ''LBuilder;'', get_ifields = [ex_x, ex_y], get_vmethods = [ex_build_method] \<rparr>"

definition ex_call :: "nat \<Rightarrow> IRInstruction" where
  "ex_call n = IRMethodInstruction n INVOKE_VIRTUAL [1] (DexMethodRef ''LBuilder;'' ''build'' ''()LFoo;'')"

definition ex_one_call :: IRCode where
  "ex_one_call = \<lparr> entries = map MFLOW_OPCODE [ex_new, ex_init, ex_call 10, ex_ret],
                   registers_size = 4, ins_size = 1 \<rparr>"

definition ex_two_calls :: IRCode where
  "ex_two_calls = \<lparr> entries = map MFLOW_OPCODE [ex_new, ex_init, ex_call 10, ex_call 11, ex_ret],
                    registers_size = 4, ins_size = 1 \<rparr>"

definition ex_inline :: "DexMethod \<Rightarrow> DexMethod \<Rightarrow> IRInstruction \<Rightarrow> bool \<times> DexMethod" where
  "ex_inline caller callee insn =
     (True, caller\<lparr>get_code := map_option (\<lambda>code. remove_opcode code insn) (get_code caller)\<rparr>)"

definition ex_inline_fails :: "DexMethod \<Rightarrow> DexMethod \<Rightarrow> IRInstruction \<Rightarrow> bool \<times> DexMethod" where
  "ex_inline_fails caller callee insn = (False, caller)"

text \<open>
  A call of the method \<^verbatim>\<open>setX\<close> of the builder and a \<^verbatim>\<open>check-cast\<close> to the builder
  type, and a body that has both between the write and the read of \<open>x\<close>.
\<close>

definition ex_setx :: IRInstruction where
  "ex_setx = IRMethodInstruction 12 INVOKE_VIRTUAL [1, 0] (DexMethodRef ''LBuilder;'' ''setX'' ''(I)V'')"

definition ex_cast :: IRInstruction where
  "ex_cast = IRTypeInstruction 13 CHECK_CAST None [1] ''LBuilder;''"

definition ex_setter :: IRCode where
  "ex_setter = \<lparr> entries = map MFLOW_OPCODE [ex_new, ex_init, ex_put, ex_setx, ex_cast, ex_get, ex_ret],
                 registers_size = 4, ins_size = 1 \<rparr>"

text \<open>
  A body with a read of \<open>x\<close> after its return, and a control-flow graph whose only
  block is the first four entries of the body: what follows the return is in no block
  the traversal from the entry reaches.
\<close>

definition ex_dead_read :: IRCode where
  "ex_dead_read = \<lparr> entries = map MFLOW_OPCODE [ex_new, ex_init, ex_put, ex_ret, ex_get2],
                    registers_size = 4, ins_size = 1 \<rparr>"

definition ex_reachable :: "IRCode \<Rightarrow> Block list" where
  "ex_reachable code = [take 4 (entries code)]"

section \<open>Properties\<close>

text \<open>The definitions to unfold when a run on an example is computed.\<close>

lemmas ex_defs = ex_x_def ex_y_def ex_builder_def ex_blocks_def ex_dataflow_def ex_new_def ex_init_def
  ex_put_def ex_clobber_def ex_get_def ex_get2_def ex_ret_def ex_linear_def ex_bridge_def ex_undef_def
  ex_full_def ex_method_def ex_dataflow_different_def ex_build_method_def ex_builder_with_build_def
  ex_call_def ex_one_call_def ex_two_calls_def ex_inline_def ex_inline_fails_def
  ex_setx_def ex_cast_def ex_setter_def ex_dead_read_def ex_reachable_def

lemmas run_defs = remove_builder_def fields_setters_def FieldsRegs_init_def fields_mapping_def
  plan_insn_def plan_iget_def plan_init_def commit_plan_def enlarge_register_frame_def enlarge_regs_def
  add_null_instr_def add_move_instr_def insert_after_def remove_opcode_def method_updates_def
  move_instr_for_def get_move_opcode_def reg_at_def iput_insn_at_def default_to_undefined_def
  overwritten_by_def type_class_is_def fresh_id_def src_def dest_def is_iput_def is_iget_def is_invoke_def
  inline_build_def inlinables_def get_build_method_def
  Let_def

subsection \<open>Opcode categories\<close>

lemma is_iput_opcodes [simp]:
  "is_iput (iput_opcode p)" "\<not> is_iput (iget_opcode g)" "\<not> is_iput (plain_opcode q)"
  "\<not> is_iput (type_opcode t)" "\<not> is_iput (invoke_opcode i)"
  subgoal by (cases p) (simp_all add: is_iput_def)
  subgoal by (cases g) (simp_all add: is_iput_def)
  subgoal by (cases q) (simp_all add: is_iput_def)
  subgoal by (cases t) (simp_all add: is_iput_def)
  subgoal by (cases i) (simp_all add: is_iput_def)
  done

lemma is_iget_opcodes [simp]:
  "\<not> is_iget (iput_opcode p)" "is_iget (iget_opcode g)" "\<not> is_iget (plain_opcode q)"
  "\<not> is_iget (type_opcode t)" "\<not> is_iget (invoke_opcode i)"
  subgoal by (cases p) (simp_all add: is_iget_def)
  subgoal by (cases g) (simp_all add: is_iget_def)
  subgoal by (cases q) (simp_all add: is_iget_def)
  subgoal by (cases t) (simp_all add: is_iget_def)
  subgoal by (cases i) (simp_all add: is_iget_def)
  done

lemma is_invoke_opcodes [simp]:
  "\<not> is_invoke (iput_opcode p)" "\<not> is_invoke (iget_opcode g)" "\<not> is_invoke (plain_opcode q)"
  "\<not> is_invoke (type_opcode t)" "is_invoke (invoke_opcode i)"
  subgoal by (cases p) (simp_all add: is_invoke_def)
  subgoal by (cases g) (simp_all add: is_invoke_def)
  subgoal by (cases q) (simp_all add: is_invoke_def)
  subgoal by (cases t) (simp_all add: is_invoke_def)
  subgoal by (cases i) (simp_all add: is_invoke_def)
  done

lemma new_instance_opcodes [simp]:
  "iput_opcode p \<noteq> OPCODE_NEW_INSTANCE" "iget_opcode g \<noteq> OPCODE_NEW_INSTANCE"
  "plain_opcode q \<noteq> OPCODE_NEW_INSTANCE" "invoke_opcode i \<noteq> OPCODE_NEW_INSTANCE"
  "(type_opcode t = OPCODE_NEW_INSTANCE) = (t = NEW_INSTANCE)"
  subgoal by (cases p) simp_all
  subgoal by (cases g) simp_all
  subgoal by (cases q) simp_all
  subgoal by (cases i) simp_all
  subgoal by (cases t) simp_all
  done

lemma is_iput_opcode_iff:
  "is_iput (opcode insn) \<longleftrightarrow> (\<exists>n op s obj f. insn = IRFieldPut n op s obj f)"
  by (cases insn) simp_all

lemma is_iget_opcode_iff:
  "is_iget (opcode insn) \<longleftrightarrow> (\<exists>n op d obj f. insn = IRFieldGet n op d obj f)"
  by (cases insn) simp_all

subsection \<open>The transfer function\<close>

text \<open>
  Claim C8. With \<open>is_setter\<close> true, \<^verbatim>\<open>fields_mapping\<close> sends every field that is mapped
  to the destination register \<open>d\<close> of the instruction, and for a wide destination every
  field mapped to register \<open>d + 1\<close>, to \<open>OVERWRITTEN\<close>. A field-write on the builder
  leaves its own field in \<open>Reg s\<close>, where \<open>s\<close> is source register 0 of the write, and
  records the write as the field's originating write. (A field-write has no destination
  register, so the two cases do not meet.)
\<close>

theorem fields_mapping_overwrites:
  "(\<forall>d f r. dest_opt insn = Some d \<and> field_to_reg fregs f = Some (Reg r)
        \<and> (r = d \<or> (dest_is_wide insn \<and> unat r = unat d + 1))
      \<longrightarrow> field_to_reg (fields_mapping insn fregs builder True) f = Some OVERWRITTEN)
   \<and> (\<forall>n op s obj g. insn = IRFieldPut n op s obj g \<and> field_get_class g = get_type builder
      \<longrightarrow> field_to_reg (fields_mapping insn fregs builder True) g = Some (Reg s)
        \<and> field_to_iput_insn (fields_mapping insn fregs builder True) g = Some (Some insn))"
proof (intro conjI allI impI)
  fix d f r
  assume a: "dest_opt insn = Some d \<and> field_to_reg fregs f = Some (Reg r)
        \<and> (r = d \<or> (dest_is_wide insn \<and> unat r = unat d + 1))"
  then have np: "\<not> is_iput (opcode insn)"
    by (auto simp: is_iput_opcode_iff)
  from a have "overwritten_by d (dest_is_wide insn) (default_to_undefined (Reg r)) = OVERWRITTEN"
    by (auto simp: overwritten_by_def default_to_undefined_def)
  with a np show "field_to_reg (fields_mapping insn fregs builder True) f = Some OVERWRITTEN"
    by (simp add: fields_mapping_def)
next
  fix n op s obj g
  assume a: "insn = IRFieldPut n op s obj g \<and> field_get_class g = get_type builder"
  then have put: "is_iput (opcode insn)"
    by (auto simp: is_iput_opcode_iff)
  with a show "field_to_reg (fields_mapping insn fregs builder True) g = Some (Reg s)"
    by (simp add: fields_mapping_def)
  from a put
  show "field_to_iput_insn (fields_mapping insn fregs builder True) g = Some (Some insn)"
    by (simp add: fields_mapping_def)
qed

theorem fields_mapping_overwrites_witness:
  "field_to_reg (fields_mapping (IRInstruction 7 CONST_WIDE (Some 2) True [] 0)
       \<lparr>field_to_reg = [ex_x \<mapsto> Reg 2, ex_y \<mapsto> Reg 3], field_to_iput_insn = Map.empty\<rparr> ex_builder True) ex_x
     = Some OVERWRITTEN
   \<and> field_to_reg (fields_mapping (IRInstruction 7 CONST_WIDE (Some 2) True [] 0)
       \<lparr>field_to_reg = [ex_x \<mapsto> Reg 2, ex_y \<mapsto> Reg 3], field_to_iput_insn = Map.empty\<rparr> ex_builder True) ex_y
     = Some OVERWRITTEN
   \<and> field_to_reg (fields_mapping (IRFieldPut 5 IPUT 4 1 ex_x)
       \<lparr>field_to_reg = [ex_x \<mapsto> Reg 2, ex_y \<mapsto> Reg 3], field_to_iput_insn = Map.empty\<rparr> ex_builder True) ex_x
     = Some (Reg 4)
   \<and> field_to_iput_insn (fields_mapping (IRFieldPut 5 IPUT 4 1 ex_x)
       \<lparr>field_to_reg = [ex_x \<mapsto> Reg 2, ex_y \<mapsto> Reg 3], field_to_iput_insn = Map.empty\<rparr> ex_builder True) ex_x
     = Some (Some (IRFieldPut 5 IPUT 4 1 ex_x))"
proof -
  let ?c = "IRInstruction 7 CONST_WIDE (Some 2) True [] 0"
  let ?p = "IRFieldPut 5 IPUT 4 1 ex_x"
  let ?s = "\<lparr>field_to_reg = [ex_x \<mapsto> Reg 2, ex_y \<mapsto> Reg 3], field_to_iput_insn = Map.empty\<rparr>"
  note c = fields_mapping_overwrites [of ?c ?s ex_builder, THEN conjunct1, rule_format]
  note p = fields_mapping_overwrites [of ?p ?s ex_builder, THEN conjunct2, rule_format]
  have 1: "field_to_reg (fields_mapping ?c ?s ex_builder True) ex_x = Some OVERWRITTEN"
    by (rule c [of 2 ex_x 2]) (simp add: ex_x_def ex_y_def)
  have 2: "field_to_reg (fields_mapping ?c ?s ex_builder True) ex_y = Some OVERWRITTEN"
    by (rule c [of 2 ex_y 3]) (simp add: ex_x_def ex_y_def)
  have 3: "field_to_reg (fields_mapping ?p ?s ex_builder True) ex_x = Some (Reg 4)
     \<and> field_to_iput_insn (fields_mapping ?p ?s ex_builder True) ex_x = Some (Some ?p)"
    by (rule p [of 5 IPUT 4 1 ex_x]) (simp add: ex_x_def ex_builder_def)
  from 1 2 3 show ?thesis by simp
qed

subsection \<open>The meet\<close>

text \<open>
  Claim C2, as stated, fails: \<^verbatim>\<open>FieldsRegs::meet\<close> is not the meet the spec describes.
  An \<open>UNDEFINED\<close> side against a register with a write gives \<open>DIFFERENT\<close> and no write
  in the source, where the spec carries the other side's write along; an \<open>OVERWRITTEN\<close>
  side against a register gives \<open>DIFFERENT\<close> in the source, where the spec gives
  \<open>OVERWRITTEN\<close>.
\<close>

theorem FieldsRegs_meet_differs_from_spec:
  "FieldsRegs_meet
      \<lparr>field_to_reg = [ex_x \<mapsto> UNDEFINED], field_to_iput_insn = [ex_x \<mapsto> None]\<rparr>
      \<lparr>field_to_reg = [ex_x \<mapsto> Reg 3], field_to_iput_insn = [ex_x \<mapsto> Some (IRFieldPut 5 IPUT 3 1 ex_x)]\<rparr>
     = Inr \<lparr>field_to_reg = [ex_x \<mapsto> DIFFERENT], field_to_iput_insn = [ex_x \<mapsto> None]\<rparr>
   \<and> meet_spec (UNDEFINED, None) (Reg 3, Some (IRFieldPut 5 IPUT 3 1 ex_x))
     = (Reg 3, Some (IRFieldPut 5 IPUT 3 1 ex_x))
   \<and> FieldsRegs_meet
      \<lparr>field_to_reg = [ex_x \<mapsto> OVERWRITTEN], field_to_iput_insn = [ex_x \<mapsto> Some (IRFieldPut 5 IPUT 3 1 ex_x)]\<rparr>
      \<lparr>field_to_reg = [ex_x \<mapsto> Reg 3], field_to_iput_insn = [ex_x \<mapsto> Some (IRFieldPut 5 IPUT 3 1 ex_x)]\<rparr>
     = Inr \<lparr>field_to_reg = [ex_x \<mapsto> DIFFERENT], field_to_iput_insn = [ex_x \<mapsto> None]\<rparr>
   \<and> meet_spec (OVERWRITTEN, Some (IRFieldPut 5 IPUT 3 1 ex_x)) (Reg 3, Some (IRFieldPut 5 IPUT 3 1 ex_x))
     = (OVERWRITTEN, Some (IRFieldPut 5 IPUT 3 1 ex_x))"
  by (auto simp: FieldsRegs_meet_def meet_throws_def meet_reg_def meet_iput_insn_def meet_spec_def fun_eq_iff)

text \<open>
  Claim C2, amended. When the meet returns, a field \<open>f\<close> of \<^verbatim>\<open>this\<close> with entry \<open>a\<close>
  has an entry \<open>b\<close> in \<^verbatim>\<open>that\<close>, and: Bottom (\<open>DEFAULT\<close>) on this side yields the other
  side's entry and write; Bottom on the other side keeps this side; two equal entries
  (the same register, or the same status) keep this side's entry and write; any two
  entries that are not Bottom and differ give \<open>DIFFERENT\<close> with no write.
\<close>

theorem FieldsRegs_meet_per_field:
  assumes "FieldsRegs_meet this that = Inr r" and "field_to_reg this f = Some a"
  shows "\<exists>b. field_to_reg that f = Some b
    \<and> (a = DEFAULT \<longrightarrow> field_to_reg r f = Some b \<and> field_to_iput_insn r f = field_to_iput_insn that f)
    \<and> (a \<noteq> DEFAULT \<and> b = DEFAULT \<longrightarrow>
          field_to_reg r f = Some a \<and> field_to_iput_insn r f = field_to_iput_insn this f)
    \<and> (a \<noteq> DEFAULT \<and> b \<noteq> DEFAULT \<and> a = b \<longrightarrow>
          field_to_reg r f = Some a \<and> field_to_iput_insn r f = field_to_iput_insn this f)
    \<and> (a \<noteq> DEFAULT \<and> b \<noteq> DEFAULT \<and> a \<noteq> b \<longrightarrow>
          field_to_reg r f = Some DIFFERENT \<and> field_to_iput_insn r f = Some None)"
proof -
  from assms(1) have nt: "\<not> meet_throws this that"
    by (auto simp: FieldsRegs_meet_def split: if_splits)
  with assms(2) obtain b where b: "field_to_reg that f = Some b"
    by (auto simp: meet_throws_def)
  from assms(1) nt have r: "r = \<lparr>
        field_to_reg = (\<lambda>k. case field_to_reg this k of
                              None \<Rightarrow> None
                            | Some a \<Rightarrow> Some (meet_reg a (the (field_to_reg that k)))),
        field_to_iput_insn = (\<lambda>k. case field_to_reg this k of
                              None \<Rightarrow> field_to_iput_insn this k
                            | Some a \<Rightarrow> meet_iput_insn a (field_to_iput_insn this k)
                                         (the (field_to_reg that k)) (field_to_iput_insn that k)) \<rparr>"
    by (simp add: FieldsRegs_meet_def)
  show ?thesis
    using b assms(2) by (simp add: r meet_reg_def meet_iput_insn_def)
qed

theorem FieldsRegs_meet_per_field_witness:
  "FieldsRegs_meet
      \<lparr>field_to_reg = [ex_x \<mapsto> UNDEFINED], field_to_iput_insn = [ex_x \<mapsto> None]\<rparr>
      \<lparr>field_to_reg = [ex_x \<mapsto> Reg 3], field_to_iput_insn = [ex_x \<mapsto> Some (IRFieldPut 5 IPUT 3 1 ex_x)]\<rparr>
     = Inr \<lparr>field_to_reg = [ex_x \<mapsto> DIFFERENT], field_to_iput_insn = [ex_x \<mapsto> None]\<rparr>
   \<and> field_to_reg \<lparr>field_to_reg = [ex_x \<mapsto> UNDEFINED], field_to_iput_insn = [ex_x \<mapsto> None]\<rparr> ex_x
     = Some UNDEFINED
   \<and> (\<exists>b. field_to_reg \<lparr>field_to_reg = [ex_x \<mapsto> Reg 3],
               field_to_iput_insn = [ex_x \<mapsto> Some (IRFieldPut 5 IPUT 3 1 ex_x)]\<rparr> ex_x = Some b
          \<and> UNDEFINED \<noteq> DEFAULT \<and> b \<noteq> DEFAULT \<and> UNDEFINED \<noteq> b
          \<and> field_to_reg \<lparr>field_to_reg = [ex_x \<mapsto> DIFFERENT], field_to_iput_insn = [ex_x \<mapsto> None]\<rparr> ex_x
            = Some DIFFERENT
          \<and> field_to_iput_insn \<lparr>field_to_reg = [ex_x \<mapsto> DIFFERENT], field_to_iput_insn = [ex_x \<mapsto> None]\<rparr> ex_x
            = Some None)"
proof -
  let ?A = "\<lparr>field_to_reg = [ex_x \<mapsto> UNDEFINED], field_to_iput_insn = [ex_x \<mapsto> None]\<rparr>"
  let ?B = "\<lparr>field_to_reg = [ex_x \<mapsto> Reg 3], field_to_iput_insn = [ex_x \<mapsto> Some (IRFieldPut 5 IPUT 3 1 ex_x)]\<rparr>"
  let ?r = "\<lparr>field_to_reg = [ex_x \<mapsto> DIFFERENT], field_to_iput_insn = [ex_x \<mapsto> None]\<rparr>"
  have m: "FieldsRegs_meet ?A ?B = Inr ?r"
    by (auto simp: FieldsRegs_meet_def meet_throws_def meet_reg_def meet_iput_insn_def fun_eq_iff)
  have a: "field_to_reg ?A ex_x = Some UNDEFINED"
    by simp
  from FieldsRegs_meet_per_field [OF m a] m
  show ?thesis by simp
qed

subsection \<open>The loop of \<^verbatim>\<open>remove_builder\<close>\<close>

text \<open>The nested loops visit the entries of the blocks in order; an invariant of the loop
  body over the visited instructions holds of the locals the loop ends with.\<close>

lemma plan_block_append:
  "plan_block b fi n (xs @ ys) st =
     (case plan_block b fi n xs st of
        Goes_on st' \<Rightarrow> plan_block b fi n ys st'
      | Throws e \<Rightarrow> Throws e
      | Returns_false \<Rightarrow> Returns_false)"
proof (induction xs arbitrary: st)
  case Nil
  show ?case by simp
next
  case (Cons x xs)
  show ?case
    by (cases x) (simp_all add: Cons.IH split: flow.splits)
qed

lemma plan_blocks_concat:
  "plan_blocks b fi n blocks st = plan_block b fi n (concat blocks) st"
  by (induction blocks arbitrary: st) (simp_all add: plan_block_append split: flow.splits)

lemma plan_block_invariant:
  assumes "plan_block b fi n es st = Goes_on st'"
    and "I S st"
    and "\<And>insn s s' S. insn \<in> set (InstructionIterable es) \<Longrightarrow> plan_insn b fi n insn s = Goes_on s'
            \<Longrightarrow> I S s \<Longrightarrow> I (insert insn S) s'"
  shows "I (S \<union> set (InstructionIterable es)) st'"
  using assms
proof (induction es arbitrary: st S)
  case Nil
  then show ?case by simp
next
  case (Cons e es)
  show ?case
  proof (cases e)
    case (MFLOW_OPCODE insn)
    with Cons.prems(1) obtain s1 where s1: "plan_insn b fi n insn st = Goes_on s1"
      and rest: "plan_block b fi n es s1 = Goes_on st'"
      by (auto split: flow.splits)
    have "I (insert insn S) s1"
      using Cons.prems(3) [of insn st s1 S] s1 Cons.prems(2) MFLOW_OPCODE by simp
    then have "I (insert insn S \<union> set (InstructionIterable es)) st'"
      using Cons.IH [OF rest, of "insert insn S"] Cons.prems(3) MFLOW_OPCODE by simp
    then show ?thesis using MFLOW_OPCODE by simp
  next
    case MFLOW_TRY
    then show ?thesis using Cons by simp
  next
    case MFLOW_CATCH
    then show ?thesis using Cons by simp
  next
    case MFLOW_TARGET
    then show ?thesis using Cons by simp
  next
    case MFLOW_DEBUG
    then show ?thesis using Cons by simp
  next
    case MFLOW_POSITION
    then show ?thesis using Cons by simp
  next
    case MFLOW_FALLTHROUGH
    then show ?thesis using Cons by simp
  qed
qed

lemma plan_blocks_invariant:
  assumes "plan_blocks b fi n blocks plan_init = Goes_on st'"
    and "I {} plan_init"
    and "\<And>insn s s' S. insn \<in> set (visited blocks) \<Longrightarrow> plan_insn b fi n insn s = Goes_on s'
            \<Longrightarrow> I S s \<Longrightarrow> I (insert insn S) s'"
  shows "I (set (visited blocks)) st'"
  using plan_block_invariant [of b fi n "concat blocks" plan_init st' I "{}"] assms
  by (simp add: plan_blocks_concat visited_def)

lemma get_move_opcode_Inr:
  "get_move_opcode w = Inr mop \<longleftrightarrow>
     (\<exists>n op s obj g. w = IRFieldPut n op s obj g \<and>
        mop = (if op = IPUT_WIDE then MOVE_WIDE else if op = IPUT_OBJECT then MOVE_OBJECT else MOVE))"
proof (cases w)
  case (IRFieldPut n op s obj g)
  then show ?thesis by (cases op) (auto simp: get_move_opcode_def is_iput_def)
qed (auto simp: get_move_opcode_def)

lemma get_move_opcode_put:
  "get_move_opcode w = Inr mop \<Longrightarrow> \<exists>k op s obj f. w = IRFieldPut k op s obj f"
  by (auto simp: get_move_opcode_Inr)

lemma get_move_opcode_range: "get_move_opcode w = Inr mop \<Longrightarrow> mop \<in> {MOVE, MOVE_WIDE, MOVE_OBJECT}"
  by (auto simp: get_move_opcode_Inr split: if_splits)

lemma plan_insn_not_read:
  assumes "plan_insn b fi n insn st = Goes_on st'" and "read_state b fi insn = None"
  shows "st' = st\<lparr>deletes := deletes st @ (if touches_builder b insn then [insn] else [])\<rparr>"
proof (cases "fi insn")
  case None
  with assms(1) show ?thesis by (simp add: plan_insn_def)
next
  case (Some fs)
  show ?thesis
  proof (cases insn)
    case (IRInstruction x1 x2 x3 x4 x5 x6)
    with assms Some show ?thesis
      by (simp add: plan_insn_def touches_builder_def)
  next
    case (IRFieldGet x1 x2 x3 x4 x5)
    with assms Some show ?thesis
      by (simp add: plan_insn_def touches_builder_def read_state_def split: if_splits)
  next
    case (IRFieldPut x1 x2 x3 x4 x5)
    with assms Some show ?thesis
      by (auto simp add: plan_insn_def touches_builder_def split: if_splits)
  next
    case (IRTypeInstruction x1 x2 x3 x4 x5)
    with assms Some show ?thesis
      by (auto simp add: plan_insn_def touches_builder_def split: if_splits)
  next
    case (IRMethodInstruction x1 x2 x3 x4)
    with assms Some show ?thesis
      by (auto simp add: plan_insn_def touches_builder_def split: if_splits)
  qed
qed

lemma plan_insn_read:
  assumes "read_state b fi insn = Some v"
  shows "\<exists>k op d obj f fs. insn = IRFieldGet k op d obj f \<and> field_get_class f = get_type b
     \<and> fi insn = Some fs \<and> reg_at fs f = v \<and> read_write b fi insn = iput_insn_at fs f
     \<and> touches_builder b insn
     \<and> plan_insn b fi n insn st = plan_iget fs n insn f st"
  using assms
  by (cases insn) (auto simp: read_state_def read_write_def plan_insn_def touches_builder_def split: if_splits)

lemma read_state_Some_get:
  "read_state b fi insn = Some v \<Longrightarrow> \<exists>k op d obj f. insn = IRFieldGet k op d obj f"
  by (cases insn) (simp_all add: read_state_def)

text \<open>The ways one pass of the loop body can reach the next iteration.\<close>

lemma plan_insn_cases:
  assumes run: "plan_insn b fi n insn st = Goes_on st'"
  obtains
    (other) "read_state b fi insn = None"
      "st' = st\<lparr>deletes := deletes st @ (if touches_builder b insn then [insn] else [])\<rparr>"
  | (null_first) "read_state b fi insn = Some UNDEFINED" "null_reg st = None"
      "st' = st\<lparr>null_reg := Some (n + extra_regs st),
                 extra_regs := extra_regs st + 1,
                 move_replacements := AList.update insn (n + extra_regs st, MOVE) (move_replacements st),
                 deletes := deletes st @ [insn]\<rparr>"
  | (null_again) r where "read_state b fi insn = Some UNDEFINED" "null_reg st = Some r"
      "st' = st\<lparr>move_replacements := AList.update insn (r, MOVE) (move_replacements st),
                 deletes := deletes st @ [insn]\<rparr>"
  | (reuse) v w mop found where "read_state b fi insn = Some v" "v \<noteq> DIFFERENT" "v \<noteq> UNDEFINED"
      "read_write b fi insn = Some w" "get_move_opcode w = Inr mop"
      "map_of (move_replacements st) w = Some found"
      "st' = st\<lparr>move_replacements := AList.update insn (fst found, mop) (move_replacements st),
                 deletes := deletes st @ [insn]\<rparr>"
  | (bridge) w mop where "read_state b fi insn = Some OVERWRITTEN"
      "read_write b fi insn = Some w" "get_move_opcode w = Inr mop"
      "map_of (move_replacements st) w = None"
      "st' = st\<lparr>move_replacements :=
                   AList.update insn (n + extra_regs st, mop)
                     (AList.update w (n + extra_regs st, mop) (move_replacements st)),
                 extra_regs := extra_regs st + (if mop = MOVE_WIDE then 2 else 1),
                 deletes := deletes st @ [insn]\<rparr>"
  | (direct) v w mop where "read_state b fi insn = Some v" "v \<noteq> DIFFERENT" "v \<noteq> UNDEFINED" "v \<noteq> OVERWRITTEN"
      "read_write b fi insn = Some w" "get_move_opcode w = Inr mop"
      "map_of (move_replacements st) w = None"
      "st' = st\<lparr>move_replacements := AList.update insn (src w 0, mop) (move_replacements st),
                 deletes := deletes st @ [insn]\<rparr>"
proof (cases "read_state b fi insn")
  case None
  with run other plan_insn_not_read show ?thesis by blast
next
  case (Some v)
  from plan_insn_read [OF Some, of n st] obtain f fs where
    fs: "reg_at fs f = v" "read_write b fi insn = iput_insn_at fs f"
      "plan_insn b fi n insn st = plan_iget fs n insn f st"
    by blast
  with run have pi: "plan_iget fs n insn f st = Goes_on st'" by simp
  show ?thesis
  proof (cases "v = UNDEFINED")
    case True
    with pi fs Some null_first null_again show ?thesis
      by (auto simp: plan_iget_def split: option.splits)
  next
    case False
    from pi fs have nd: "v \<noteq> DIFFERENT"
      by (auto simp: plan_iget_def)
    from pi fs False nd obtain w where w: "iput_insn_at fs f = Some w"
      by (auto simp: plan_iget_def split: option.splits)
    from pi fs False nd w obtain mop where mop: "get_move_opcode w = Inr mop"
      by (auto simp: plan_iget_def split: sum.splits)
    show ?thesis
    proof (cases "map_of (move_replacements st) w")
      case (Some found)
      with pi fs False nd w mop \<open>read_state b fi insn = Some v\<close> reuse [of v w mop found]
      show ?thesis by (simp add: plan_iget_def)
    next
      case None
      show ?thesis
      proof (cases "v = OVERWRITTEN")
        case True
        with pi fs False nd w mop None \<open>read_state b fi insn = Some v\<close> bridge [of w mop]
        show ?thesis by (simp add: plan_iget_def)
      next
        case nov: False
        with pi fs False nd w mop None \<open>read_state b fi insn = Some v\<close> direct [of v w mop]
        show ?thesis by (simp add: plan_iget_def)
      qed
    qed
  qed
qed

lemma plan_insn_deletes:
  assumes "plan_insn b fi n insn st = Goes_on st'"
  shows "deletes st' = deletes st @ (if touches_builder b insn then [insn] else [])"
  using assms
proof (cases rule: plan_insn_cases)
  case other
  then show ?thesis by simp
qed (use plan_insn_read [of b fi insn _ n st] in auto)

lemma plan_block_deletes:
  "plan_block b fi n es st = Goes_on st' \<Longrightarrow>
     deletes st' = deletes st @ filter (touches_builder b) (InstructionIterable es)"
proof (induction es arbitrary: st)
  case Nil
  then show ?case by simp
next
  case (Cons e es)
  show ?case
  proof (cases e)
    case (MFLOW_OPCODE insn)
    with Cons.prems obtain s1 where s1: "plan_insn b fi n insn st = Goes_on s1"
      and rest: "plan_block b fi n es s1 = Goes_on st'"
      by (auto split: flow.splits)
    from Cons.IH [OF rest] plan_insn_deletes [OF s1] MFLOW_OPCODE
    show ?thesis by simp
  qed (use Cons in simp_all)
qed

lemma plan_blocks_deletes:
  "plan_blocks b fi n blocks plan_init = Goes_on st \<Longrightarrow>
     deletes st = filter (touches_builder b) (visited blocks)"
  using plan_block_deletes [of b fi n "concat blocks" plan_init st]
  by (simp add: plan_blocks_concat visited_def plan_init_def)

lemma map_of_update_other:
  "k \<noteq> k' \<Longrightarrow> map_of (AList.update k' v al) k = map_of al k"
  by (simp add: update_conv')

lemma set_update_subset: "set (AList.update k v al) \<subseteq> insert (k, v) (set al)"
  by (induction al) auto

lemma null_inv_step:
  assumes run: "plan_insn b fi n insn st = Goes_on st'" and inv: "null_inv b fi S st"
  shows "null_inv b fi (insert insn S) st'"
  using run
proof (cases rule: plan_insn_cases)
  case other
  with inv show ?thesis by (auto simp: null_inv_def)
next
  case null_first
  with inv show ?thesis by (auto simp: null_inv_def update_conv')
next
  case (null_again r)
  with inv show ?thesis by (auto simp: null_inv_def update_conv')
next
  case (reuse v w mop found)
  have "map_of (move_replacements st') rd = map_of (move_replacements st) rd"
    if "read_state b fi rd = Some UNDEFINED" for rd
    using that reuse by (auto simp: update_conv')
  with inv reuse show ?thesis by (auto simp: null_inv_def)
next
  case (bridge w mop)
  have "map_of (move_replacements st') rd = map_of (move_replacements st) rd"
    if "read_state b fi rd = Some UNDEFINED" for rd
    using that bridge read_state_Some_get [OF that] get_move_opcode_put [of w mop]
    by (auto simp: update_conv')
  with inv bridge show ?thesis by (auto simp: null_inv_def)
next
  case (direct v w mop)
  have "map_of (move_replacements st') rd = map_of (move_replacements st) rd"
    if "read_state b fi rd = Some UNDEFINED" for rd
    using that direct by (auto simp: update_conv')
  with inv direct show ?thesis by (auto simp: null_inv_def)
qed

lemma plan_blocks_null:
  assumes "plan_blocks b fi n blocks plan_init = Goes_on st"
  shows "null_inv b fi (set (visited blocks)) st"
  using assms
proof (rule plan_blocks_invariant [where I = "null_inv b fi"])
  show "null_inv b fi {} plan_init"
    by (simp add: null_inv_def plan_init_def)
qed (rule null_inv_step)

lemma move_ops_ok_update:
  "move_ops_ok ml \<Longrightarrow> mop \<in> {MOVE, MOVE_WIDE, MOVE_OBJECT} \<Longrightarrow> move_ops_ok (AList.update k (r, mop) ml)"
  using set_update_subset [of k "(r, mop)" ml] by (auto simp: move_ops_ok_def)

lemma move_ops_ok_step:
  assumes run: "plan_insn b fi n insn st = Goes_on st'" and inv: "move_ops_ok (move_replacements st)"
  shows "move_ops_ok (move_replacements st')"
  using run
proof (cases rule: plan_insn_cases)
  case other
  with inv show ?thesis by simp
next
  case null_first
  with inv show ?thesis by (simp add: move_ops_ok_update)
next
  case (null_again r)
  with inv show ?thesis by (simp add: move_ops_ok_update)
next
  case (reuse v w mop found)
  with inv get_move_opcode_range [of w mop] show ?thesis by (simp add: move_ops_ok_update)
next
  case (bridge w mop)
  with inv get_move_opcode_range [of w mop] show ?thesis by (simp add: move_ops_ok_update)
next
  case (direct v w mop)
  with inv get_move_opcode_range [of w mop] show ?thesis by (simp add: move_ops_ok_update)
qed

lemma plan_blocks_move_ops:
  assumes "plan_blocks b fi n blocks plan_init = Goes_on st"
  shows "move_ops_ok (move_replacements st)"
  using assms
proof (rule plan_blocks_invariant [where I = "\<lambda>S st. move_ops_ok (move_replacements st)"])
  show "move_ops_ok (move_replacements plan_init)"
    by (simp add: move_ops_ok_def plan_init_def)
qed (rule move_ops_ok_step)

text \<open>Every instruction with a planned move is a field-write or a field-read, so
  \<^verbatim>\<open>method_updates\<close> calls \<^verbatim>\<open>src(0)\<close> and \<^verbatim>\<open>dest()\<close> where they are defined.\<close>

lemma field_key_update:
  assumes "\<forall>k \<in> fst ` set ml. is_iput (opcode k) \<or> is_iget (opcode k)"
    and "is_iput (opcode k') \<or> is_iget (opcode k')"
  shows "\<forall>k \<in> fst ` set (AList.update k' v ml). is_iput (opcode k) \<or> is_iget (opcode k)"
  using assms set_update_subset [of k' v ml] by fastforce

lemma read_is_iget: "read_state b fi rd = Some v \<Longrightarrow> is_iget (opcode rd)"
  by (auto dest!: read_state_Some_get)

lemma plan_keys_step:
  assumes run: "plan_insn b fi n insn st = Goes_on st'"
    and inv: "\<forall>k \<in> fst ` set (move_replacements st). is_iput (opcode k) \<or> is_iget (opcode k)"
  shows "\<forall>k \<in> fst ` set (move_replacements st'). is_iput (opcode k) \<or> is_iget (opcode k)"
  using run
proof (cases rule: plan_insn_cases)
  case other
  with inv show ?thesis by simp
next
  case null_first
  with field_key_update [OF inv, of insn] read_is_iget [of b fi insn] show ?thesis by simp
next
  case (null_again r)
  with field_key_update [OF inv, of insn] read_is_iget [of b fi insn] show ?thesis by simp
next
  case (reuse v w mop found)
  with field_key_update [OF inv, of insn] read_is_iget [of b fi insn] show ?thesis by simp
next
  case (bridge w mop)
  from bridge have w: "is_iput (opcode w) \<or> is_iget (opcode w)"
    by (auto dest!: get_move_opcode_put)
  from bridge read_is_iget [of b fi insn] have i: "is_iput (opcode insn) \<or> is_iget (opcode insn)"
    by simp
  from field_key_update [OF field_key_update [OF inv w] i] bridge show ?thesis by simp
next
  case (direct v w mop)
  with field_key_update [OF inv, of insn] read_is_iget [of b fi insn] show ?thesis by simp
qed

lemma plan_keys_field_insns:
  assumes "plan_blocks b fi n blocks plan_init = Goes_on st"
  shows "\<forall>k \<in> fst ` set (move_replacements st). is_iput (opcode k) \<or> is_iget (opcode k)"
  using assms
proof (rule plan_blocks_invariant
    [where I = "\<lambda>S st. \<forall>k \<in> fst ` set (move_replacements st). is_iput (opcode k) \<or> is_iget (opcode k)"])
  show "\<forall>k \<in> fst ` set (move_replacements plan_init). is_iput (opcode k) \<or> is_iget (opcode k)"
    by (simp add: plan_init_def)
qed (rule plan_keys_step)

subsection \<open>Committing the plan\<close>

lemma InstructionIterable_append [simp]:
  "InstructionIterable (xs @ ys) = InstructionIterable xs @ InstructionIterable ys"
proof (induction xs)
  case Nil
  show ?case by simp
next
  case (Cons e es)
  then show ?case by (cases e) simp_all
qed

lemma InstructionIterable_map [simp]: "InstructionIterable (map MFLOW_OPCODE insns) = insns"
  by (induction insns) simp_all

lemma InstructionIterable_removeAll [simp]:
  "InstructionIterable (removeAll (MFLOW_OPCODE insn) es) = removeAll insn (InstructionIterable es)"
proof (induction es)
  case Nil
  show ?case by simp
next
  case (Cons e es)
  then show ?case by (cases e) auto
qed

lemma InstructionIterable_insert_after:
  "InstructionIterable (insert_after_entries pos insns es) =
     (if pos \<in> set (InstructionIterable es)
      then takeWhile (\<lambda>i. i \<noteq> pos) (InstructionIterable es) @ pos # insns
             @ tl (dropWhile (\<lambda>i. i \<noteq> pos) (InstructionIterable es))
      else InstructionIterable es)"
proof (induction es)
  case Nil
  show ?case by simp
next
  case (Cons e es)
  then show ?case by (cases e) auto
qed








lemma commit_plan_True:
  "commit_plan m code st = (True, m') \<longleftrightarrow>
     unat (registers_size code) + unat (extra_regs st) \<le> 16 \<and> m' = m\<lparr>get_code := Some (committed code st)\<rparr>"
  by (auto simp: commit_plan_def enlarge_register_frame_def committed_def Let_def)

lemma commit_plan_False:
  "commit_plan m code st = (False, m') \<longleftrightarrow>
     16 < unat (registers_size code) + unat (extra_regs st) \<and> m' = m"
  by (auto simp: commit_plan_def enlarge_register_frame_def Let_def)

lemma remove_builder_True:
  assumes "remove_builder pb fd m b be = Inr (True, m')"
  obtains code fields_in st where "get_code m = Some code"
    and "fields_setters fd (pb code) b = Inr fields_in"
    and "plan_blocks b fields_in (registers_size code - ins_size code) (pb code) plan_init = Goes_on st"
    and "unat (registers_size code) + unat (extra_regs st) \<le> 16"
    and "m' = m\<lparr>get_code := Some (committed code st)\<rparr>"
  using assms
  by (auto simp: remove_builder_def Let_def commit_plan_True split: option.splits sum.splits flow.splits)






lemma filter_insert_after:
  "\<forall>i \<in> set insns. \<not> P i \<Longrightarrow>
     filter P (InstructionIterable (insert_after_entries pos insns es)) = filter P (InstructionIterable es)"
proof (induction es)
  case Nil
  show ?case by simp
next
  case (Cons e es)
  then show ?case by (cases e) auto
qed

lemma const4s_move_instr_for:
  "snd (snd me) \<in> {MOVE, MOVE_WIDE, MOVE_OBJECT} \<Longrightarrow> const4s (move_instr_for code me) = const4s code"
  by (auto simp: const4s_def move_instr_for_def add_move_instr_def insert_after_def Let_def
      intro!: filter_insert_after)

lemma const4s_moves_fold:
  "move_ops_ok ml \<Longrightarrow> const4s (fold (\<lambda>me c. move_instr_for c me) ml code) = const4s code"
  by (induction ml arbitrary: code) (simp_all add: move_ops_ok_def const4s_move_instr_for)

lemma filter_removeAll_other: "\<not> P d \<Longrightarrow> filter P (removeAll d xs) = filter P xs"
  by (induction xs) auto

lemma const4s_remove_fold:
  "\<forall>d \<in> set ds. opcode d \<noteq> OPCODE_CONST_4 \<Longrightarrow>
     const4s (fold (\<lambda>insn c. remove_opcode c insn) ds code) = const4s code"
proof (induction ds arbitrary: code)
  case Nil
  show ?case by simp
next
  case (Cons d ds)
  have "const4s (remove_opcode code d) = const4s code"
    using Cons.prems by (simp add: const4s_def remove_opcode_def filter_removeAll_other)
  with Cons show ?case by simp
qed

lemma touches_builder_not_const: "touches_builder b i \<Longrightarrow> opcode i \<noteq> OPCODE_CONST_4"
proof (cases i)
  case (IRFieldGet x1 x2 x3 x4 x5)
  then show ?thesis by (cases x2) simp_all
next
  case (IRFieldPut x1 x2 x3 x4 x5)
  then show ?thesis by (cases x2) simp_all
next
  case (IRTypeInstruction x1 x2 x3 x4 x5)
  then show ?thesis by (cases x2) simp_all
next
  case (IRMethodInstruction x1 x2 x3 x4)
  then show ?thesis by (cases x2) simp_all
qed (simp add: touches_builder_def)

lemma const4s_committed:
  assumes "plan_blocks b fi n blocks plan_init = Goes_on st"
  shows "const4s (committed code st) =
           (case null_reg st of None \<Rightarrow> [] | Some r \<Rightarrow> [null_const code r]) @ const4s code"
proof -
  let ?code1 = "enlarge_regs code (unat (registers_size code) + unat (extra_regs st))"
  let ?code2 = "case null_reg st of None \<Rightarrow> ?code1 | Some r \<Rightarrow> add_null_instr ?code1 r"
  have d: "\<forall>d \<in> set (deletes st). opcode d \<noteq> OPCODE_CONST_4"
    using plan_blocks_deletes [OF assms] touches_builder_not_const by auto
  have "const4s (committed code st) = const4s ?code2"
    by (simp add: committed_def Let_def method_updates_def const4s_remove_fold [OF d]
        const4s_moves_fold [OF plan_blocks_move_ops [OF assms]])
  also have "\<dots> = (case null_reg st of None \<Rightarrow> [] | Some r \<Rightarrow> [null_const code r]) @ const4s code"
    by (simp add: const4s_def enlarge_regs_def add_null_instr_def insert_after_def null_const_def
        split: option.splits)
  finally show ?thesis .
qed

lemma head_insert_after:
  "entries code = e # es \<Longrightarrow> \<exists>es'. entries (move_instr_for code me) = e # es'"
  by (auto simp: move_instr_for_def add_move_instr_def insert_after_def Let_def)

lemma head_moves_fold:
  "entries code = e # es \<Longrightarrow> \<exists>es'. entries (fold (\<lambda>me c. move_instr_for c me) ml code) = e # es'"
proof (induction ml arbitrary: code es)
  case Nil
  then show ?case by simp
next
  case (Cons me ml)
  from head_insert_after [OF Cons.prems, of me] obtain es1
    where "entries (move_instr_for code me) = e # es1" by blast
  from Cons.IH [OF this] show ?case by simp
qed

lemma head_remove_fold:
  "entries code = MFLOW_OPCODE c # es \<Longrightarrow> c \<notin> set ds \<Longrightarrow>
     \<exists>es'. entries (fold (\<lambda>insn c. remove_opcode c insn) ds code) = MFLOW_OPCODE c # es'"
proof (induction ds arbitrary: code es)
  case Nil
  then show ?case by simp
next
  case (Cons d ds)
  from Cons.prems have "entries (remove_opcode code d) = MFLOW_OPCODE c # removeAll (MFLOW_OPCODE d) es"
    by (auto simp: remove_opcode_def)
  from Cons.IH [OF this] Cons.prems show ?case by simp
qed

lemma head_committed:
  assumes "plan_blocks b fi n blocks plan_init = Goes_on st" and "null_reg st = Some r"
  shows "\<exists>rest. entries (committed code st) = MFLOW_OPCODE (null_const code r) # rest"
proof -
  let ?code1 = "enlarge_regs code (unat (registers_size code) + unat (extra_regs st))"
  let ?code2 = "add_null_instr ?code1 r"
  have e2: "entries ?code2 = MFLOW_OPCODE (null_const code r) # entries code"
    by (simp add: enlarge_regs_def add_null_instr_def insert_after_def null_const_def)
  from head_moves_fold [OF e2, of "move_replacements st"] obtain es1 where
    es1: "entries (fold (\<lambda>me c. move_instr_for c me) (move_replacements st) ?code2)
            = MFLOW_OPCODE (null_const code r) # es1"
    by blast
  have "null_const code r \<notin> set (deletes st)"
    using plan_blocks_deletes [OF assms(1)] touches_builder_not_const [of b "null_const code r"]
    by (auto simp: null_const_def)
  from head_remove_fold [OF es1 this] assms(2) show ?thesis
    by (simp add: committed_def Let_def method_updates_def)
qed

subsection \<open>Abort outcomes\<close>

lemma plan_insn_Returns_false_iff:
  "plan_insn b fi n insn st = Returns_false \<longleftrightarrow>
     (\<exists>v. read_state b fi insn = Some v
        \<and> (v = DIFFERENT \<or> (v \<noteq> UNDEFINED \<and> read_write b fi insn = None)))"
proof (cases "read_state b fi insn")
  case None
  have "plan_insn b fi n insn st \<noteq> Returns_false"
  proof (cases "fi insn")
    case None
    then show ?thesis by (simp add: plan_insn_def)
  next
    case (Some fs)
    with \<open>read_state b fi insn = None\<close> show ?thesis
      by (cases insn) (auto simp: plan_insn_def read_state_def split: if_splits)
  qed
  with None show ?thesis by simp
next
  case (Some v)
  from plan_insn_read [OF Some, of n st] obtain f fs where
    fs: "reg_at fs f = v" "read_write b fi insn = iput_insn_at fs f"
      "plan_insn b fi n insn st = plan_iget fs n insn f st"
    by blast
  show ?thesis
    using Some fs by (auto simp: plan_iget_def Let_def split: option.splits sum.splits)
qed

lemma plan_insn_Goes_on_read:
  assumes "plan_insn b fi n insn st = Goes_on st'" and "read_state b fi insn = Some v"
  shows "v \<noteq> DIFFERENT
     \<and> (v = UNDEFINED \<or> (\<exists>w mop. read_write b fi insn = Some w \<and> get_move_opcode w = Inr mop))"
  using assms by (cases rule: plan_insn_cases) auto

lemma plan_blocks_reads_resolved:
  assumes "plan_blocks b fi n blocks plan_init = Goes_on st"
  shows "reads_resolved b fi (set (visited blocks)) st"
  using assms
proof (rule plan_blocks_invariant [where I = "reads_resolved b fi"])
  show "reads_resolved b fi {} plan_init"
    by (simp add: reads_resolved_def)
next
  fix insn s s' S
  assume "plan_insn b fi n insn s = Goes_on s'" and "reads_resolved b fi S s"
  then show "reads_resolved b fi (insert insn S) s'"
    using plan_insn_Goes_on_read [of b fi n insn s s'] by (auto simp: reads_resolved_def)
qed

lemma remove_builder_False:
  assumes "remove_builder pb fd m b be = Inr (False, m')"
  shows "m' = m"
  using assms
  by (auto simp: remove_builder_def Let_def commit_plan_False split: option.splits sum.splits flow.splits)

text \<open>
  Claim C1. Whenever \<^verbatim>\<open>remove_builder\<close> returns failure, the method (its instruction
  sequence and its register count) is the method it was called with. It returns failure
  when its loop returns \<^verbatim>\<open>false\<close>, which by \<open>plan_insn_Returns_false_iff\<close> is the case
  of a read in state \<open>DIFFERENT\<close> (ambiguous field value) or of a read with no
  originating write (unresolved originating write), and when the current register count
  plus the extra registers exceeds 16 (register budget exceeded). A visited read that is
  ambiguous or unresolved rules out success.
\<close>

theorem remove_builder_abort_unchanged:
  "(remove_builder pb fd m b be = Inr (False, m') \<longrightarrow> m' = m)
   \<and> (\<forall>code fi. get_code m = Some code \<and> fields_setters fd (pb code) b = Inr fi
         \<and> plan_blocks b fi (registers_size code - ins_size code) (pb code) plan_init = Returns_false
        \<longrightarrow> remove_builder pb fd m b be = Inr (False, m))
   \<and> (\<forall>code fi st. get_code m = Some code \<and> fields_setters fd (pb code) b = Inr fi
         \<and> plan_blocks b fi (registers_size code - ins_size code) (pb code) plan_init = Goes_on st
         \<and> 16 < unat (registers_size code) + unat (extra_regs st)
        \<longrightarrow> remove_builder pb fd m b be = Inr (False, m))
   \<and> (\<forall>code fi rd v. get_code m = Some code \<and> fields_setters fd (pb code) b = Inr fi
         \<and> rd \<in> set (visited (pb code)) \<and> read_state b fi rd = Some v
         \<and> (v = DIFFERENT \<or> (v \<noteq> UNDEFINED \<and> read_write b fi rd = None))
        \<longrightarrow> (\<forall>m''. remove_builder pb fd m b be \<noteq> Inr (True, m'')))"
proof (intro conjI allI impI)
  assume "remove_builder pb fd m b be = Inr (False, m')"
  then show "m' = m" by (rule remove_builder_False)
next
  fix code fi
  assume "get_code m = Some code \<and> fields_setters fd (pb code) b = Inr fi
         \<and> plan_blocks b fi (registers_size code - ins_size code) (pb code) plan_init = Returns_false"
  then show "remove_builder pb fd m b be = Inr (False, m)"
    by (simp add: remove_builder_def)
next
  fix code fi st
  assume "get_code m = Some code \<and> fields_setters fd (pb code) b = Inr fi
         \<and> plan_blocks b fi (registers_size code - ins_size code) (pb code) plan_init = Goes_on st
         \<and> 16 < unat (registers_size code) + unat (extra_regs st)"
  then show "remove_builder pb fd m b be = Inr (False, m)"
    by (simp add: remove_builder_def commit_plan_def enlarge_register_frame_def)
next
  fix code fi rd v m''
  assume a: "get_code m = Some code \<and> fields_setters fd (pb code) b = Inr fi
         \<and> rd \<in> set (visited (pb code)) \<and> read_state b fi rd = Some v
         \<and> (v = DIFFERENT \<or> (v \<noteq> UNDEFINED \<and> read_write b fi rd = None))"
  show "remove_builder pb fd m b be \<noteq> Inr (True, m'')"
  proof
    assume "remove_builder pb fd m b be = Inr (True, m'')"
    then obtain st where
      "plan_blocks b fi (registers_size code - ins_size code) (pb code) plan_init = Goes_on st"
      using a by (auto elim!: remove_builder_True)
    from plan_blocks_reads_resolved [OF this] a show False
      by (auto simp: reads_resolved_def)
  qed
qed

theorem remove_builder_abort_unchanged_witness:
  "remove_builder ex_blocks ex_dataflow_different (ex_method (Some ex_linear)) ex_builder ex_builder
     = Inr (False, ex_method (Some ex_linear))
   \<and> remove_builder ex_blocks ex_dataflow (ex_method (Some ex_full)) ex_builder ex_builder
     = Inr (False, ex_method (Some ex_full))
   \<and> ex_get \<in> set (visited (ex_blocks ex_linear))
   \<and> read_state ex_builder
        (\<lambda>insn. Some \<lparr>field_to_reg = [ex_x \<mapsto> DIFFERENT], field_to_iput_insn = [ex_x \<mapsto> None]\<rparr>) ex_get
      = Some DIFFERENT
   \<and> (\<exists>st. plan_blocks ex_builder (straightline_states (\<lambda>insn fregs. fields_mapping insn fregs ex_builder True)
               (FieldsRegs_init ex_builder) (visited (ex_blocks ex_full)))
             (registers_size ex_full - ins_size ex_full) (ex_blocks ex_full) plan_init = Goes_on st
          \<and> 16 < unat (registers_size ex_full) + unat (extra_regs st))"
proof -
  note t = remove_builder_abort_unchanged [of ex_blocks ex_dataflow_different "ex_method (Some ex_linear)"
      ex_builder ex_builder "ex_method (Some ex_linear)"]
  note u = remove_builder_abort_unchanged [of ex_blocks ex_dataflow "ex_method (Some ex_full)"
      ex_builder ex_builder "ex_method (Some ex_full)"]
  have c: "get_code (ex_method (Some ex_linear)) = Some ex_linear"
    "get_code (ex_method (Some ex_full)) = Some ex_full"
    by (simp_all add: ex_method_def)
  have fd: "fields_setters ex_dataflow_different (ex_blocks ex_linear) ex_builder
      = Inr (\<lambda>insn. Some \<lparr>field_to_reg = [ex_x \<mapsto> DIFFERENT], field_to_iput_insn = [ex_x \<mapsto> None]\<rparr>)"
    by (simp add: fields_setters_def ex_dataflow_different_def)
  have ff: "fields_setters ex_dataflow (ex_blocks ex_full) ex_builder
      = Inr (straightline_states (\<lambda>insn fregs. fields_mapping insn fregs ex_builder True)
               (FieldsRegs_init ex_builder) (visited (ex_blocks ex_full)))"
    by (simp add: fields_setters_def ex_dataflow_def visited_def)
  have vis: "ex_get \<in> set (visited (ex_blocks ex_linear))"
    by (simp add: visited_def ex_blocks_def ex_linear_def)
  have rs: "read_state ex_builder
        (\<lambda>insn. Some \<lparr>field_to_reg = [ex_x \<mapsto> DIFFERENT], field_to_iput_insn = [ex_x \<mapsto> None]\<rparr>) ex_get
      = Some DIFFERENT"
    by (simp add: read_state_def ex_get_def ex_x_def ex_builder_def reg_at_def)
  have pf: "plan_blocks ex_builder (straightline_states (\<lambda>insn fregs. fields_mapping insn fregs ex_builder True)
               (FieldsRegs_init ex_builder) (visited (ex_blocks ex_full)))
             (registers_size ex_full - ins_size ex_full) (ex_blocks ex_full) plan_init
        = Goes_on \<lparr>extra_regs = 1, null_reg = Some 15, deletes = [ex_new, ex_init, ex_get],
                    move_replacements = [(ex_get, 15, MOVE)]\<rparr>"
    by (simp add: ex_defs run_defs visited_def)
  have big: "16 < unat (registers_size ex_full) + unat (1 :: 16 word)"
    by (simp add: ex_full_def)
  from t [THEN conjunct2, THEN conjunct2, THEN conjunct2, rule_format, of ex_linear _ ex_get DIFFERENT]
    c fd vis rs
  have no: "\<forall>m''. remove_builder ex_blocks ex_dataflow_different (ex_method (Some ex_linear)) ex_builder ex_builder
      \<noteq> Inr (True, m'')"
    by simp
  have d: "remove_builder ex_blocks ex_dataflow_different (ex_method (Some ex_linear)) ex_builder ex_builder
     = Inr (False, ex_method (Some ex_linear))"
    by (simp add: ex_defs run_defs)
  from u [THEN conjunct2, THEN conjunct2, THEN conjunct1, rule_format, of ex_full] c ff pf big
  have f: "remove_builder ex_blocks ex_dataflow (ex_method (Some ex_full)) ex_builder ex_builder
     = Inr (False, ex_method (Some ex_full))"
    by simp
  from d f vis rs pf big show ?thesis by simp
qed

subsection \<open>The entry points on a method without a body, and \<^verbatim>\<open>inline_build\<close>\<close>

text \<open>
  Claim C10. On a method whose code is absent, \<^verbatim>\<open>inline_build\<close> and
  \<^verbatim>\<open>remove_builder\<close> both return \<^verbatim>\<open>false\<close> (a normal return, no exception or failed
  assertion) and leave the method as it is.
\<close>

theorem no_body_returns_false:
  "get_code method = None \<Longrightarrow>
     inline_build inline_method method builder = (False, method)
     \<and> remove_builder postorder_blocks forwards_dataflow method builder buildee = Inr (False, method)"
  by (simp add: inline_build_def remove_builder_def)

theorem no_body_returns_false_witness:
  "get_code (ex_method None) = None
   \<and> inline_build ex_inline (ex_method None) ex_builder_with_build = (False, ex_method None)
   \<and> remove_builder ex_blocks ex_dataflow (ex_method None) ex_builder_with_build ex_builder_with_build
       = Inr (False, ex_method None)"
proof -
  have h: "get_code (ex_method None) = None"
    by (simp add: ex_method_def)
  from no_body_returns_false [OF h, of ex_inline ex_builder_with_build ex_blocks ex_dataflow ex_builder_with_build] h
  show ?thesis by simp
qed



subsection \<open>Runs on the examples\<close>

lemma ex_fields_setters:
  "fields_setters ex_dataflow (ex_blocks code) b
      = Inr (straightline_states (\<lambda>insn fregs. fields_mapping insn fregs b True)
               (FieldsRegs_init b) (visited (ex_blocks code)))"
  by (simp add: fields_setters_def ex_dataflow_def visited_def)

lemma ex_plan_undef:
  "plan_blocks ex_builder (straightline_states (\<lambda>insn fregs. fields_mapping insn fregs ex_builder True)
               (FieldsRegs_init ex_builder) (visited (ex_blocks ex_undef)))
             (registers_size ex_undef - ins_size ex_undef) (ex_blocks ex_undef) plan_init
        = Goes_on \<lparr>extra_regs = 1, null_reg = Some 3, deletes = [ex_new, ex_init, ex_get],
                    move_replacements = [(ex_get, 3, MOVE)]\<rparr>"
  by (simp add: ex_defs run_defs visited_def)

lemma ex_plan_full:
  "plan_blocks ex_builder (straightline_states (\<lambda>insn fregs. fields_mapping insn fregs ex_builder True)
               (FieldsRegs_init ex_builder) (visited (ex_blocks ex_full)))
             (registers_size ex_full - ins_size ex_full) (ex_blocks ex_full) plan_init
        = Goes_on \<lparr>extra_regs = 1, null_reg = Some 15, deletes = [ex_new, ex_init, ex_get],
                    move_replacements = [(ex_get, 15, MOVE)]\<rparr>"
  by (simp add: ex_defs run_defs visited_def)

lemma ex_run_undef:
  "remove_builder ex_blocks ex_dataflow (ex_method (Some ex_undef)) ex_builder ex_builder =
     Inr (True, ex_method (Some \<lparr>entries =
               [MFLOW_OPCODE (IRInstruction 7 CONST_4 (Some 3) False [] 0),
                MFLOW_OPCODE (IRInstruction 8 MOVE (Some 2) False [3] 0),
                MFLOW_OPCODE ex_ret],
               registers_size = 5, ins_size = 1\<rparr>))"
  by (simp add: ex_defs run_defs)

lemma ex_run_linear:
  "remove_builder ex_blocks ex_dataflow (ex_method (Some ex_linear)) ex_builder ex_builder =
     Inr (True, ex_method (Some \<lparr>entries =
               [MFLOW_OPCODE (IRInstruction 7 MOVE (Some 2) False [0] 0),
                MFLOW_OPCODE ex_ret],
               registers_size = 4, ins_size = 1\<rparr>))"
  by (simp add: ex_defs run_defs)




subsection \<open>The register frame\<close>

lemma registers_size_moves_fold [simp]:
  "registers_size (fold (\<lambda>me c. move_instr_for c me) ml code) = registers_size code"
  by (induction ml arbitrary: code)
     (simp_all add: move_instr_for_def add_move_instr_def insert_after_def Let_def)

lemma registers_size_remove_fold [simp]:
  "registers_size (fold (\<lambda>insn c. remove_opcode c insn) ds code) = registers_size code"
  by (induction ds arbitrary: code) (simp_all add: remove_opcode_def)

lemma registers_size_committed:
  "registers_size (committed code st) = of_nat (unat (registers_size code) + unat (extra_regs st))"
  by (simp add: committed_def Let_def method_updates_def enlarge_regs_def add_null_instr_def
      insert_after_def split: option.splits)

lemma unat_of_nat_small: "n \<le> 16 \<Longrightarrow> unat (of_nat n :: 16 word) = n"
  by (simp add: unat_of_nat)

lemma unat_add_small:
  "unat (a :: 16 word) + unat b \<le> 16 \<Longrightarrow> unat (a + b) = unat a + unat b"
  by (simp add: unat_word_ariths)

text \<open>
  Claim C3. For a method with a body: when \<^verbatim>\<open>remove_builder\<close> succeeds, the new
  register count is the old count plus the \<^verbatim>\<open>extra_regs\<close> the loop ended with, and is
  at most 16. Whenever the current count plus the extra registers exceeds 16,
  \<^verbatim>\<open>enlarge_register_frame\<close> returns \<^verbatim>\<open>false\<close> and leaves the body as it is, and
  \<^verbatim>\<open>remove_builder\<close> returns failure with the method unchanged; otherwise
  \<^verbatim>\<open>enlarge_register_frame\<close> returns \<^verbatim>\<open>true\<close> with the count raised by exactly the
  extra registers.
\<close>

theorem register_ceiling:
  assumes "get_code m = Some code"
  shows "(\<forall>m'. remove_builder pb fd m b be = Inr (True, m') \<longrightarrow>
            (\<exists>code' fi st. get_code m' = Some code' \<and> fields_setters fd (pb code) b = Inr fi
               \<and> plan_blocks b fi (registers_size code - ins_size code) (pb code) plan_init = Goes_on st
               \<and> unat (registers_size code') = unat (registers_size code) + unat (extra_regs st)
               \<and> unat (registers_size code') \<le> 16))
     \<and> (\<forall>extra. 16 < unat (registers_size code) + unat extra \<longrightarrow>
            enlarge_register_frame code extra = (False, code))
     \<and> (\<forall>extra. unat (registers_size code) + unat extra \<le> 16 \<longrightarrow>
            (\<exists>code'. enlarge_register_frame code extra = (True, code')
               \<and> unat (registers_size code') = unat (registers_size code) + unat extra
               \<and> entries code' = entries code))
     \<and> (\<forall>fi st. fields_setters fd (pb code) b = Inr fi
            \<and> plan_blocks b fi (registers_size code - ins_size code) (pb code) plan_init = Goes_on st
            \<and> 16 < unat (registers_size code) + unat (extra_regs st) \<longrightarrow>
            remove_builder pb fd m b be = Inr (False, m))"
proof (intro conjI allI impI)
  fix m'
  assume "remove_builder pb fd m b be = Inr (True, m')"
  then obtain fi st where fi: "fields_setters fd (pb code) b = Inr fi"
    and plan: "plan_blocks b fi (registers_size code - ins_size code) (pb code) plan_init = Goes_on st"
    and le: "unat (registers_size code) + unat (extra_regs st) \<le> 16"
    and m': "m' = m\<lparr>get_code := Some (committed code st)\<rparr>"
    using assms by (auto elim!: remove_builder_True)
  have "unat (registers_size (committed code st)) = unat (registers_size code) + unat (extra_regs st)"
    using le by (simp add: registers_size_committed unat_add_small)
  with fi plan le m'
  show "\<exists>code' fi st. get_code m' = Some code' \<and> fields_setters fd (pb code) b = Inr fi
               \<and> plan_blocks b fi (registers_size code - ins_size code) (pb code) plan_init = Goes_on st
               \<and> unat (registers_size code') = unat (registers_size code) + unat (extra_regs st)
               \<and> unat (registers_size code') \<le> 16"
    by auto
next
  fix extra :: "16 word"
  assume "16 < unat (registers_size code) + unat extra"
  then show "enlarge_register_frame code extra = (False, code)"
    by (simp add: enlarge_register_frame_def)
next
  fix extra :: "16 word"
  assume "unat (registers_size code) + unat extra \<le> 16"
  then show "\<exists>code'. enlarge_register_frame code extra = (True, code')
               \<and> unat (registers_size code') = unat (registers_size code) + unat extra
               \<and> entries code' = entries code"
    by (simp add: enlarge_register_frame_def enlarge_regs_def unat_add_small)
next
  fix fi st
  assume "fields_setters fd (pb code) b = Inr fi
            \<and> plan_blocks b fi (registers_size code - ins_size code) (pb code) plan_init = Goes_on st
            \<and> 16 < unat (registers_size code) + unat (extra_regs st)"
  with assms show "remove_builder pb fd m b be = Inr (False, m)"
    by (simp add: remove_builder_def commit_plan_def enlarge_register_frame_def)
qed

theorem register_ceiling_witness:
  "get_code (ex_method (Some ex_undef)) = Some ex_undef
   \<and> remove_builder ex_blocks ex_dataflow (ex_method (Some ex_undef)) ex_builder ex_builder =
       Inr (True, ex_method (Some \<lparr>entries =
               [MFLOW_OPCODE (IRInstruction 7 CONST_4 (Some 3) False [] 0),
                MFLOW_OPCODE (IRInstruction 8 MOVE (Some 2) False [3] 0),
                MFLOW_OPCODE ex_ret],
               registers_size = 5, ins_size = 1\<rparr>))
   \<and> unat (5 :: 16 word) = unat (registers_size ex_undef) + unat (1 :: 16 word)
   \<and> unat (5 :: 16 word) \<le> 16
   \<and> get_code (ex_method (Some ex_full)) = Some ex_full
   \<and> 16 < unat (registers_size ex_full) + unat (1 :: 16 word)
   \<and> enlarge_register_frame ex_full 1 = (False, ex_full)
   \<and> remove_builder ex_blocks ex_dataflow (ex_method (Some ex_full)) ex_builder ex_builder
       = Inr (False, ex_method (Some ex_full))
   \<and> unat (registers_size ex_undef) + unat (1 :: 16 word) \<le> 16
   \<and> enlarge_register_frame ex_undef 1 = (True, ex_undef\<lparr>registers_size := 5\<rparr>)"
proof -
  have cu: "get_code (ex_method (Some ex_undef)) = Some ex_undef"
    and cf: "get_code (ex_method (Some ex_full)) = Some ex_full"
    by (simp_all add: ex_method_def)
  note u = register_ceiling [OF cu, of ex_blocks ex_dataflow ex_builder ex_builder]
  note f = register_ceiling [OF cf, of ex_blocks ex_dataflow ex_builder ex_builder]
  have big: "16 < unat (registers_size ex_full) + unat (1 :: 16 word)"
    by (simp add: ex_full_def)
  have small: "unat (registers_size ex_undef) + unat (1 :: 16 word) \<le> 16"
    by (simp add: ex_undef_def)
  from f [THEN conjunct2, THEN conjunct1, rule_format, OF big]
  have e1: "enlarge_register_frame ex_full 1 = (False, ex_full)" .
  from f [THEN conjunct2, THEN conjunct2, THEN conjunct2, rule_format, of _ "\<lparr>extra_regs = 1, null_reg = Some 15,
      deletes = [ex_new, ex_init, ex_get], move_replacements = [(ex_get, 15, MOVE)]\<rparr>"]
    ex_fields_setters [of ex_full ex_builder] ex_plan_full big
  have r1: "remove_builder ex_blocks ex_dataflow (ex_method (Some ex_full)) ex_builder ex_builder
       = Inr (False, ex_method (Some ex_full))"
    by simp
  from u [THEN conjunct2, THEN conjunct2, THEN conjunct1, rule_format, OF small]
  have e2: "enlarge_register_frame ex_undef 1 = (True, ex_undef\<lparr>registers_size := 5\<rparr>)"
    by (auto simp: enlarge_register_frame_def enlarge_regs_def ex_undef_def)
  from cu cf big small e1 r1 e2 ex_run_undef show ?thesis
    by (simp add: ex_undef_def)
qed

subsection \<open>Elimination\<close>

lemma touches_references: "touches_builder b insn \<Longrightarrow> references_builder b insn"
  by (cases insn) (simp_all add: touches_builder_def references_builder_def type_class_is_def)




subsection \<open>The null register\<close>

text \<open>
  Claim C6. After a successful \<^verbatim>\<open>remove_builder\<close>, with \<open>st\<close> the locals its loop ended
  with: every visited read in state \<open>UNDEFINED\<close> is mapped to a plain move
  (\<^verbatim>\<open>OPCODE_MOVE\<close>) from the one register \<^verbatim>\<open>null_reg\<close>; \<^verbatim>\<open>null_reg\<close> is allocated only
  if some visited read is in state \<open>UNDEFINED\<close>; the \<^verbatim>\<open>const/4\<close> instructions of the
  new body are those of the old body, preceded, if \<^verbatim>\<open>null_reg\<close> is allocated, by exactly
  one new \<^verbatim>\<open>const/4\<close> of 0 into \<^verbatim>\<open>null_reg\<close>, which is then the first entry of the body.
\<close>

theorem null_register_once:
  assumes "remove_builder pb fd m b be = Inr (True, m')"
  shows "\<exists>code fi st code'.
      get_code m = Some code \<and> fields_setters fd (pb code) b = Inr fi
    \<and> plan_blocks b fi (registers_size code - ins_size code) (pb code) plan_init = Goes_on st
    \<and> get_code m' = Some code'
    \<and> (\<forall>rd \<in> set (visited (pb code)). read_state b fi rd = Some UNDEFINED \<longrightarrow>
          (\<exists>r. null_reg st = Some r \<and> map_of (move_replacements st) rd = Some (r, MOVE)))
    \<and> (null_reg st = None \<longleftrightarrow> (\<forall>rd \<in> set (visited (pb code)). read_state b fi rd \<noteq> Some UNDEFINED))
    \<and> const4s code' = (case null_reg st of None \<Rightarrow> [] | Some r \<Rightarrow> [null_const code r]) @ const4s code
    \<and> (\<forall>r. null_reg st = Some r \<longrightarrow>
          (\<exists>rest. entries code' = MFLOW_OPCODE (null_const code r) # rest))"
proof -
  from assms obtain code fi st where code: "get_code m = Some code"
    and fi: "fields_setters fd (pb code) b = Inr fi"
    and plan: "plan_blocks b fi (registers_size code - ins_size code) (pb code) plan_init = Goes_on st"
    and m': "m' = m\<lparr>get_code := Some (committed code st)\<rparr>"
    by (auto elim!: remove_builder_True)
  from plan_blocks_null [OF plan]
  have mapped: "\<forall>rd \<in> set (visited (pb code)). read_state b fi rd = Some UNDEFINED \<longrightarrow>
          (\<exists>r. null_reg st = Some r \<and> map_of (move_replacements st) rd = Some (r, MOVE))"
    and only_if: "null_reg st = None \<longleftrightarrow> (\<forall>rd \<in> set (visited (pb code)). read_state b fi rd \<noteq> Some UNDEFINED)"
    by (auto simp: null_inv_def)
  have c4: "const4s (committed code st)
      = (case null_reg st of None \<Rightarrow> [] | Some r \<Rightarrow> [null_const code r]) @ const4s code"
    by (rule const4s_committed [OF plan])
  have first: "\<forall>r. null_reg st = Some r \<longrightarrow>
          (\<exists>rest. entries (committed code st) = MFLOW_OPCODE (null_const code r) # rest)"
    using head_committed [OF plan] by blast
  from code fi plan m' mapped only_if c4 first show ?thesis
    by (intro exI [of _ code] exI [of _ fi] exI [of _ st] exI [of _ "committed code st"]) simp
qed

theorem null_register_once_witness:
  "remove_builder ex_blocks ex_dataflow (ex_method (Some ex_undef)) ex_builder ex_builder =
     Inr (True, ex_method (Some \<lparr>entries =
               [MFLOW_OPCODE (IRInstruction 7 CONST_4 (Some 3) False [] 0),
                MFLOW_OPCODE (IRInstruction 8 MOVE (Some 2) False [3] 0),
                MFLOW_OPCODE ex_ret],
               registers_size = 5, ins_size = 1\<rparr>))
   \<and> (\<exists>fi st. fields_setters ex_dataflow (ex_blocks ex_undef) ex_builder = Inr fi
        \<and> plan_blocks ex_builder fi (registers_size ex_undef - ins_size ex_undef) (ex_blocks ex_undef) plan_init
            = Goes_on st
        \<and> ex_get \<in> set (visited (ex_blocks ex_undef))
        \<and> read_state ex_builder fi ex_get = Some UNDEFINED
        \<and> null_reg st = Some 3
        \<and> map_of (move_replacements st) ex_get = Some (3, MOVE)
        \<and> null_const ex_undef 3 = IRInstruction 7 CONST_4 (Some 3) False [] 0
        \<and> const4s \<lparr>entries =
               [MFLOW_OPCODE (IRInstruction 7 CONST_4 (Some 3) False [] 0),
                MFLOW_OPCODE (IRInstruction 8 MOVE (Some 2) False [3] 0),
                MFLOW_OPCODE ex_ret],
               registers_size = 5, ins_size = 1\<rparr> = [null_const ex_undef 3] @ const4s ex_undef)"
proof -
  let ?fi = "straightline_states (\<lambda>insn fregs. fields_mapping insn fregs ex_builder True)
               (FieldsRegs_init ex_builder) (visited (ex_blocks ex_undef))"
  let ?st = "\<lparr>extra_regs = 1, null_reg = Some 3, deletes = [ex_new, ex_init, ex_get],
                    move_replacements = [(ex_get, 3, MOVE)]\<rparr>"
  from null_register_once [OF ex_run_undef] obtain code fi st code' where
    t: "get_code (ex_method (Some ex_undef)) = Some code"
      "fields_setters ex_dataflow (ex_blocks code) ex_builder = Inr fi"
      "plan_blocks ex_builder fi (registers_size code - ins_size code) (ex_blocks code) plan_init = Goes_on st"
      "get_code (ex_method (Some \<lparr>entries =
               [MFLOW_OPCODE (IRInstruction 7 CONST_4 (Some 3) False [] 0),
                MFLOW_OPCODE (IRInstruction 8 MOVE (Some 2) False [3] 0),
                MFLOW_OPCODE ex_ret],
               registers_size = 5, ins_size = 1\<rparr>)) = Some code'"
      "\<forall>rd \<in> set (visited (ex_blocks code)). read_state ex_builder fi rd = Some UNDEFINED \<longrightarrow>
          (\<exists>r. null_reg st = Some r \<and> map_of (move_replacements st) rd = Some (r, MOVE))"
      "const4s code' = (case null_reg st of None \<Rightarrow> [] | Some r \<Rightarrow> [null_const code r]) @ const4s code"
    by blast
  from t(1) have code: "code = ex_undef" by (simp add: ex_method_def)
  from t(2) code have fi: "fi = ?fi" by (simp add: ex_fields_setters)
  from t(3) code fi have st: "st = ?st" by (simp add: ex_plan_undef)
  from t(4) have code': "code' = \<lparr>entries =
               [MFLOW_OPCODE (IRInstruction 7 CONST_4 (Some 3) False [] 0),
                MFLOW_OPCODE (IRInstruction 8 MOVE (Some 2) False [3] 0),
                MFLOW_OPCODE ex_ret],
               registers_size = 5, ins_size = 1\<rparr>"
    by (simp add: ex_method_def)
  have vis: "ex_get \<in> set (visited (ex_blocks ex_undef))"
    by (simp add: visited_def ex_blocks_def ex_undef_def)
  have rs: "read_state ex_builder ?fi ex_get = Some UNDEFINED"
    by (simp add: read_state_def visited_def ex_defs run_defs)
  have nc: "null_const ex_undef 3 = IRInstruction 7 CONST_4 (Some 3) False [] 0"
    by (simp add: null_const_def fresh_id_def ex_defs)
  from t(5) [rule_format, of ex_get] code fi st vis rs
  have mp: "map_of (move_replacements ?st) ex_get = Some (3, MOVE)"
    by simp
  from t(6) code st code'
  have cs: "const4s \<lparr>entries =
               [MFLOW_OPCODE (IRInstruction 7 CONST_4 (Some 3) False [] 0),
                MFLOW_OPCODE (IRInstruction 8 MOVE (Some 2) False [3] 0),
                MFLOW_OPCODE ex_ret],
               registers_size = 5, ins_size = 1\<rparr> = [null_const ex_undef 3] @ const4s ex_undef"
    by simp
  show ?thesis
    using ex_run_undef ex_fields_setters [of ex_undef ex_builder] ex_plan_undef vis rs mp nc cs
    by (intro conjI exI [of _ ?fi] exI [of _ ?st]) simp_all
qed

subsection \<open>Reads of a field whose register was overwritten\<close>

text \<open>A read the loop plans a move for is not a field-write, and an instruction with a
  move opcode of its own is one.\<close>

lemma read_not_put:
  "read_state b fi rd = Some v \<Longrightarrow> get_move_opcode w = Inr mop \<Longrightarrow> rd \<noteq> w"
  by (auto dest!: read_state_Some_get get_move_opcode_put)

lemma read_not_iput: "read_state b fi rd = Some v \<Longrightarrow> \<not> is_iput (opcode rd)"
  by (auto dest!: read_state_Some_get)

lemma put_is_iput: "get_move_opcode w = Inr mop \<Longrightarrow> is_iput (opcode w)"
  by (auto dest!: get_move_opcode_put)

lemma bridge_inv_step:
  assumes run: "plan_insn b fi n insn st = Goes_on st'" and inv: "bridge_inv b fi S st"
  shows "bridge_inv b fi (insert insn S) st'"
proof -
  from inv have a: "\<And>k v. map_of (move_replacements st) k = Some v \<Longrightarrow> is_iput (opcode k)
          \<Longrightarrow> get_move_opcode k = Inr (snd v)
            \<and> (\<exists>rd \<in> S. read_state b fi rd = Some OVERWRITTEN \<and> read_write b fi rd = Some k)"
    and c: "\<And>rd. rd \<in> S \<Longrightarrow> read_state b fi rd = Some OVERWRITTEN \<Longrightarrow>
            (\<exists>w x mop. read_write b fi rd = Some w \<and> get_move_opcode w = Inr mop
               \<and> map_of (move_replacements st) rd = Some (x, mop)
               \<and> map_of (move_replacements st) w = Some (x, mop))"
    and d: "distinct (map fst (move_replacements st))"
    by (auto simp: bridge_inv_def)
  from run show ?thesis
  proof (cases rule: plan_insn_cases)
    case other
    with inv show ?thesis by (auto simp: bridge_inv_def)
  next
    case null_first
    have k: "map_of (move_replacements st') k = map_of (move_replacements st) k" if "k \<noteq> insn" for k
      using that null_first by (simp add: update_conv')
    have ni: "\<not> is_iput (opcode insn)" using null_first read_not_iput by blast
    show ?thesis
      unfolding bridge_inv_def
    proof (intro conjI allI impI ballI)
      fix k v
      assume h: "map_of (move_replacements st') k = Some v \<and> is_iput (opcode k)"
      with ni have "k \<noteq> insn" by auto
      with h k a [of k v]
      show "get_move_opcode k = Inr (snd v)" 
        and "\<exists>rd \<in> insert insn S. read_state b fi rd = Some OVERWRITTEN \<and> read_write b fi rd = Some k"
        by auto
    next
      fix rd
      assume h: "rd \<in> insert insn S" "read_state b fi rd = Some OVERWRITTEN"
      with null_first have ne: "rd \<noteq> insn" and rdS: "rd \<in> S" by auto
      from c [OF rdS h(2)] obtain w x mop where w: "read_write b fi rd = Some w"
        "get_move_opcode w = Inr mop" "map_of (move_replacements st) rd = Some (x, mop)"
        "map_of (move_replacements st) w = Some (x, mop)" by blast
      from w(2) ni have "w \<noteq> insn" by (auto dest: put_is_iput)
      with w ne k show "\<exists>w x mop. read_write b fi rd = Some w \<and> get_move_opcode w = Inr mop
               \<and> map_of (move_replacements st') rd = Some (x, mop)
               \<and> map_of (move_replacements st') w = Some (x, mop)"
        by auto
    next
      from d null_first show "distinct (map fst (move_replacements st'))"
        by (simp add: distinct_update)
    qed
  next
    case (null_again r)
    have k: "map_of (move_replacements st') k = map_of (move_replacements st) k" if "k \<noteq> insn" for k
      using that null_again by (simp add: update_conv')
    have ni: "\<not> is_iput (opcode insn)" using null_again read_not_iput by blast
    show ?thesis
      unfolding bridge_inv_def
    proof (intro conjI allI impI ballI)
      fix k v
      assume h: "map_of (move_replacements st') k = Some v \<and> is_iput (opcode k)"
      with ni have "k \<noteq> insn" by auto
      with h k a [of k v]
      show "get_move_opcode k = Inr (snd v)" 
        and "\<exists>rd \<in> insert insn S. read_state b fi rd = Some OVERWRITTEN \<and> read_write b fi rd = Some k"
        by auto
    next
      fix rd
      assume h: "rd \<in> insert insn S" "read_state b fi rd = Some OVERWRITTEN"
      with null_again have ne: "rd \<noteq> insn" and rdS: "rd \<in> S" by auto
      from c [OF rdS h(2)] obtain w x mop where w: "read_write b fi rd = Some w"
        "get_move_opcode w = Inr mop" "map_of (move_replacements st) rd = Some (x, mop)"
        "map_of (move_replacements st) w = Some (x, mop)" by blast
      from w(2) ni have "w \<noteq> insn" by (auto dest: put_is_iput)
      with w ne k show "\<exists>w x mop. read_write b fi rd = Some w \<and> get_move_opcode w = Inr mop
               \<and> map_of (move_replacements st') rd = Some (x, mop)
               \<and> map_of (move_replacements st') w = Some (x, mop)"
        by auto
    next
      from d null_again show "distinct (map fst (move_replacements st'))"
        by (simp add: distinct_update)
    qed
  next
    case (reuse v w0 mop0 found)
    have k: "map_of (move_replacements st') k = map_of (move_replacements st) k" if "k \<noteq> insn" for k
      using that reuse by (simp add: update_conv')
    have me: "map_of (move_replacements st') insn = Some (fst found, mop0)"
      using reuse by (simp add: update_conv')
    have ni: "\<not> is_iput (opcode insn)" using reuse read_not_iput by blast
    have w0: "is_iput (opcode w0)" "w0 \<noteq> insn" using reuse ni by (auto dest: put_is_iput)
    from a [OF reuse(6) w0(1)] reuse(5) have fo: "found = (fst found, mop0)"
      by (cases found) simp
    show ?thesis
      unfolding bridge_inv_def
    proof (intro conjI allI impI ballI)
      fix k v
      assume h: "map_of (move_replacements st') k = Some v \<and> is_iput (opcode k)"
      with ni have "k \<noteq> insn" by auto
      with h k a [of k v]
      show "get_move_opcode k = Inr (snd v)" 
        and "\<exists>rd \<in> insert insn S. read_state b fi rd = Some OVERWRITTEN \<and> read_write b fi rd = Some k"
        by auto
    next
      fix rd
      assume h: "rd \<in> insert insn S" "read_state b fi rd = Some OVERWRITTEN"
      show "\<exists>w x mop. read_write b fi rd = Some w \<and> get_move_opcode w = Inr mop
               \<and> map_of (move_replacements st') rd = Some (x, mop)
               \<and> map_of (move_replacements st') w = Some (x, mop)"
      proof (cases "rd = insn")
        case True
        with reuse me k [OF w0(2)] fo show ?thesis
          by (intro exI [of _ w0] exI [of _ "fst found"] exI [of _ mop0]) simp
      next
        case False
        with h have rdS: "rd \<in> S" by simp
        from c [OF rdS h(2)] obtain w x mop where w: "read_write b fi rd = Some w"
          "get_move_opcode w = Inr mop" "map_of (move_replacements st) rd = Some (x, mop)"
          "map_of (move_replacements st) w = Some (x, mop)" by blast
        from w(2) ni have "w \<noteq> insn" by (auto dest: put_is_iput)
        with w False k show ?thesis by auto
      qed
    next
      from d reuse show "distinct (map fst (move_replacements st'))"
        by (simp add: distinct_update)
    qed
  next
    case (bridge w0 mop0)
    have ni: "\<not> is_iput (opcode insn)" using bridge read_not_iput by blast
    have w0: "is_iput (opcode w0)" "w0 \<noteq> insn" using bridge ni by (auto dest: put_is_iput)
    have k: "map_of (move_replacements st') k = map_of (move_replacements st) k"
      if "k \<noteq> insn" "k \<noteq> w0" for k
      using that bridge by (simp add: update_conv')
    have me: "map_of (move_replacements st') insn = Some (n + extra_regs st, mop0)"
      "map_of (move_replacements st') w0 = Some (n + extra_regs st, mop0)"
      using bridge w0 by (simp_all add: update_conv')
    show ?thesis
      unfolding bridge_inv_def
    proof (intro conjI allI impI ballI)
      fix k v
      assume h: "map_of (move_replacements st') k = Some v \<and> is_iput (opcode k)"
      with ni have ne: "k \<noteq> insn" by auto
      show "get_move_opcode k = Inr (snd v)"
        using h ne k [of k] a [of k v] me bridge by (cases "k = w0") auto
      show "\<exists>rd \<in> insert insn S. read_state b fi rd = Some OVERWRITTEN \<and> read_write b fi rd = Some k"
        using h ne k [of k] a [of k v] me bridge by (cases "k = w0") auto
    next
      fix rd
      assume h: "rd \<in> insert insn S" "read_state b fi rd = Some OVERWRITTEN"
      show "\<exists>w x mop. read_write b fi rd = Some w \<and> get_move_opcode w = Inr mop
               \<and> map_of (move_replacements st') rd = Some (x, mop)
               \<and> map_of (move_replacements st') w = Some (x, mop)"
      proof (cases "rd = insn")
        case True
        with bridge me show ?thesis
          by (intro exI [of _ w0] exI [of _ "n + extra_regs st"] exI [of _ mop0]) simp
      next
        case False
        with h have rdS: "rd \<in> S" by simp
        from c [OF rdS h(2)] obtain w x mop where w: "read_write b fi rd = Some w"
          "get_move_opcode w = Inr mop" "map_of (move_replacements st) rd = Some (x, mop)"
          "map_of (move_replacements st) w = Some (x, mop)" by blast
        from w(2) ni have wi: "w \<noteq> insn" by (auto dest: put_is_iput)
        from w(4) bridge(4) have ww: "w \<noteq> w0" by auto
        from h(2) w0(1) have rw: "rd \<noteq> w0" by (auto dest: read_not_iput)
        from w False wi ww rw k show ?thesis by auto
      qed
    next
      from d bridge show "distinct (map fst (move_replacements st'))"
        by (simp add: distinct_update)
    qed
  next
    case (direct v w0 mop0)
    have k: "map_of (move_replacements st') k = map_of (move_replacements st) k" if "k \<noteq> insn" for k
      using that direct by (simp add: update_conv')
    have ni: "\<not> is_iput (opcode insn)" using direct read_not_iput by blast
    show ?thesis
      unfolding bridge_inv_def
    proof (intro conjI allI impI ballI)
      fix k v
      assume h: "map_of (move_replacements st') k = Some v \<and> is_iput (opcode k)"
      with ni have "k \<noteq> insn" by auto
      with h k a [of k v]
      show "get_move_opcode k = Inr (snd v)" 
        and "\<exists>rd \<in> insert insn S. read_state b fi rd = Some OVERWRITTEN \<and> read_write b fi rd = Some k"
        by auto
    next
      fix rd
      assume h: "rd \<in> insert insn S" "read_state b fi rd = Some OVERWRITTEN"
      with direct have ne: "rd \<noteq> insn" and rdS: "rd \<in> S" by auto
      from c [OF rdS h(2)] obtain w x mop where w: "read_write b fi rd = Some w"
        "get_move_opcode w = Inr mop" "map_of (move_replacements st) rd = Some (x, mop)"
        "map_of (move_replacements st) w = Some (x, mop)" by blast
      from w(2) ni have "w \<noteq> insn" by (auto dest: put_is_iput)
      with w ne k show "\<exists>w x mop. read_write b fi rd = Some w \<and> get_move_opcode w = Inr mop
               \<and> map_of (move_replacements st') rd = Some (x, mop)
               \<and> map_of (move_replacements st') w = Some (x, mop)"
        by auto
    next
      from d direct show "distinct (map fst (move_replacements st'))"
        by (simp add: distinct_update)
    qed
  qed
qed

lemma plan_blocks_bridge:
  assumes "plan_blocks b fi n blocks plan_init = Goes_on st"
  shows "bridge_inv b fi (set (visited blocks)) st"
  using assms
proof (rule plan_blocks_invariant [where I = "bridge_inv b fi"])
  show "bridge_inv b fi {} plan_init"
    by (simp add: bridge_inv_def plan_init_def)
qed (rule bridge_inv_step)















subsection \<open>Reads of a field whose register still holds the value\<close>

lemma direct_inv_step:
  assumes run: "plan_insn b fi n insn st = Goes_on st'" and inv: "direct_inv b fi S st"
  shows "direct_inv b fi (insert insn S) st'"
proof -
  from inv have a: "\<And>rd r w. rd \<in> S \<Longrightarrow> read_state b fi rd = Some (Reg r) \<Longrightarrow> read_write b fi rd = Some w
          \<Longrightarrow> map_of (move_replacements st) w = None
          \<Longrightarrow> (\<exists>mop. get_move_opcode w = Inr mop
                 \<and> map_of (move_replacements st) rd = Some (src w 0, mop))"
    and z: "(\<forall>rd \<in> S. read_state b fi rd \<noteq> Some UNDEFINED \<and> read_state b fi rd \<noteq> Some OVERWRITTEN)
          \<Longrightarrow> extra_regs st = 0 \<and> null_reg st = None"
    by (auto simp: direct_inv_def)
  from run show ?thesis
  proof (cases rule: plan_insn_cases)
    case other
    with inv show ?thesis by (auto simp: direct_inv_def)
  next
    case null_first
    have k: "map_of (move_replacements st') k = map_of (move_replacements st) k" if "k \<noteq> insn" for k
      using that null_first by (simp add: update_conv')
    have mono: "map_of (move_replacements st) k = None" if "map_of (move_replacements st') k = None" for k
      using that null_first by (cases "k = insn") (simp_all add: update_conv')
    show ?thesis
      unfolding direct_inv_def
    proof (intro conjI ballI allI impI)
      fix rd r w
      assume h: "rd \<in> insert insn S" "read_state b fi rd = Some (Reg r) \<and> read_write b fi rd = Some w
          \<and> map_of (move_replacements st') w = None"
      with null_first have ne: "rd \<noteq> insn" and rdS: "rd \<in> S" by auto
      from a [OF rdS, of r w] h mono [of w] k [OF ne]
      show "\<exists>mop. get_move_opcode w = Inr mop \<and> map_of (move_replacements st') rd = Some (src w 0, mop)"
        by auto
    next
      assume "\<forall>rd \<in> insert insn S. read_state b fi rd \<noteq> Some UNDEFINED \<and> read_state b fi rd \<noteq> Some OVERWRITTEN"
      with null_first show "extra_regs st' = 0" "null_reg st' = None" by auto
    qed
  next
    case (null_again r0)
    have k: "map_of (move_replacements st') k = map_of (move_replacements st) k" if "k \<noteq> insn" for k
      using that null_again by (simp add: update_conv')
    have mono: "map_of (move_replacements st) k = None" if "map_of (move_replacements st') k = None" for k
      using that null_again by (cases "k = insn") (simp_all add: update_conv')
    show ?thesis
      unfolding direct_inv_def
    proof (intro conjI ballI allI impI)
      fix rd r w
      assume h: "rd \<in> insert insn S" "read_state b fi rd = Some (Reg r) \<and> read_write b fi rd = Some w
          \<and> map_of (move_replacements st') w = None"
      with null_again have ne: "rd \<noteq> insn" and rdS: "rd \<in> S" by auto
      from a [OF rdS, of r w] h mono [of w] k [OF ne]
      show "\<exists>mop. get_move_opcode w = Inr mop \<and> map_of (move_replacements st') rd = Some (src w 0, mop)"
        by auto
    next
      assume "\<forall>rd \<in> insert insn S. read_state b fi rd \<noteq> Some UNDEFINED \<and> read_state b fi rd \<noteq> Some OVERWRITTEN"
      with null_again show "extra_regs st' = 0" "null_reg st' = None" by auto
    qed
  next
    case (reuse v w0 mop0 found)
    have k: "map_of (move_replacements st') k = map_of (move_replacements st) k" if "k \<noteq> insn" for k
      using that reuse by (simp add: update_conv')
    have mono: "map_of (move_replacements st) k = None" if "map_of (move_replacements st') k = None" for k
      using that reuse by (cases "k = insn") (simp_all add: update_conv')
    have w0: "w0 \<noteq> insn" using reuse read_not_put by blast
    show ?thesis
      unfolding direct_inv_def
    proof (intro conjI ballI allI impI)
      fix rd r w
      assume h: "rd \<in> insert insn S" "read_state b fi rd = Some (Reg r) \<and> read_write b fi rd = Some w
          \<and> map_of (move_replacements st') w = None"
      have ne: "rd \<noteq> insn"
      proof
        assume "rd = insn"
        with h reuse have "w = w0" by simp
        with h k [OF w0] reuse show False by simp
      qed
      with h have rdS: "rd \<in> S" by simp
      from a [OF rdS, of r w] h mono [of w] k [OF ne]
      show "\<exists>mop. get_move_opcode w = Inr mop \<and> map_of (move_replacements st') rd = Some (src w 0, mop)"
        by auto
    next
      assume "\<forall>rd \<in> insert insn S. read_state b fi rd \<noteq> Some UNDEFINED \<and> read_state b fi rd \<noteq> Some OVERWRITTEN"
      with z reuse show "extra_regs st' = 0" "null_reg st' = None" by auto
    qed
  next
    case (bridge w0 mop0)
    have w0: "w0 \<noteq> insn" using bridge read_not_put by blast
    have k: "map_of (move_replacements st') k = map_of (move_replacements st) k"
      if "k \<noteq> insn" "k \<noteq> w0" for k
      using that bridge by (simp add: update_conv')
    have mono: "map_of (move_replacements st) k = None \<and> k \<noteq> w0"
      if "map_of (move_replacements st') k = None" for k
      using that bridge w0 by (cases "k = insn"; cases "k = w0") (simp_all add: update_conv')
    show ?thesis
      unfolding direct_inv_def
    proof (intro conjI ballI allI impI)
      fix rd r w
      assume h: "rd \<in> insert insn S" "read_state b fi rd = Some (Reg r) \<and> read_write b fi rd = Some w
          \<and> map_of (move_replacements st') w = None"
      with bridge have ne: "rd \<noteq> insn" and rdS: "rd \<in> S" by auto
      from h bridge have rw: "rd \<noteq> w0" using read_not_put by blast
      from a [OF rdS, of r w] h mono [of w] k [OF ne rw]
      show "\<exists>mop. get_move_opcode w = Inr mop \<and> map_of (move_replacements st') rd = Some (src w 0, mop)"
        by auto
    next
      assume "\<forall>rd \<in> insert insn S. read_state b fi rd \<noteq> Some UNDEFINED \<and> read_state b fi rd \<noteq> Some OVERWRITTEN"
      with bridge show "extra_regs st' = 0" "null_reg st' = None" by auto
    qed
  next
    case (direct v w0 mop0)
    have k: "map_of (move_replacements st') k = map_of (move_replacements st) k" if "k \<noteq> insn" for k
      using that direct by (simp add: update_conv')
    have me: "map_of (move_replacements st') insn = Some (src w0 0, mop0)"
      using direct by (simp add: update_conv')
    have mono: "map_of (move_replacements st) k = None" if "map_of (move_replacements st') k = None" for k
      using that direct by (cases "k = insn") (simp_all add: update_conv')
    show ?thesis
      unfolding direct_inv_def
    proof (intro conjI ballI allI impI)
      fix rd r w
      assume h: "rd \<in> insert insn S" "read_state b fi rd = Some (Reg r) \<and> read_write b fi rd = Some w
          \<and> map_of (move_replacements st') w = None"
      show "\<exists>mop. get_move_opcode w = Inr mop \<and> map_of (move_replacements st') rd = Some (src w 0, mop)"
      proof (cases "rd = insn")
        case True
        with h direct me show ?thesis by auto
      next
        case False
        with h have rdS: "rd \<in> S" by simp
        from a [OF rdS, of r w] h mono [of w] k [OF False] show ?thesis by auto
      qed
    next
      assume "\<forall>rd \<in> insert insn S. read_state b fi rd \<noteq> Some UNDEFINED \<and> read_state b fi rd \<noteq> Some OVERWRITTEN"
      with z direct show "extra_regs st' = 0" "null_reg st' = None" by auto
    qed
  qed
qed

lemma plan_blocks_direct:
  assumes "plan_blocks b fi n blocks plan_init = Goes_on st"
  shows "direct_inv b fi (set (visited blocks)) st"
  using assms
proof (rule plan_blocks_invariant [where I = "direct_inv b fi"])
  show "direct_inv b fi {} plan_init"
    by (simp add: direct_inv_def plan_init_def)
qed (rule direct_inv_step)

text \<open>The analysis keeps the state \<open>Reg r\<close> of a field together with a field-write from
  register \<open>r\<close>: the initial state, the transfer function and the meet preserve
  \<open>write_consistent\<close>.\<close>

lemma transfer_entry_fun:
  "transfer_entry insn =
     (case dest_opt insn of
        None \<Rightarrow> default_to_undefined
      | Some d \<Rightarrow> overwritten_by d (dest_is_wide insn) \<circ> default_to_undefined)"
  by (auto simp: transfer_entry_def fun_eq_iff split: option.splits)

lemma fields_mapping_reg:
  "field_to_reg (fields_mapping insn fregs b True) f =
     (if writes_field b insn f then Some (Reg (src insn 0))
      else map_option (transfer_entry insn) (field_to_reg fregs f))"
proof (cases insn)
  case (IRInstruction x1 x2 x3 x4 x5 x6)
  then show ?thesis
    by (simp add: fields_mapping_def Let_def writes_field_def transfer_entry_fun option.map_comp
        split: option.splits)
next
  case (IRFieldGet x1 x2 x3 x4 x5)
  then show ?thesis
    by (simp add: fields_mapping_def Let_def writes_field_def transfer_entry_fun option.map_comp comp_def)
next
  case (IRFieldPut x1 x2 x3 x4 x5)
  then show ?thesis
    by (simp add: fields_mapping_def Let_def writes_field_def transfer_entry_fun src_def)
next
  case (IRTypeInstruction x1 x2 x3 x4 x5)
  then show ?thesis
    by (simp add: fields_mapping_def Let_def writes_field_def transfer_entry_fun option.map_comp
        split: option.splits)
next
  case (IRMethodInstruction x1 x2 x3 x4)
  then show ?thesis
    by (simp add: fields_mapping_def Let_def writes_field_def transfer_entry_fun)
qed

lemma fields_mapping_iput_insn:
  "field_to_iput_insn (fields_mapping insn fregs b True) f =
     (if writes_field b insn f then Some (Some insn) else field_to_iput_insn fregs f)"
proof (cases insn)
  case (IRInstruction x1 x2 x3 x4 x5 x6)
  then show ?thesis
    by (simp add: fields_mapping_def Let_def writes_field_def split: option.splits)
next
  case (IRFieldGet x1 x2 x3 x4 x5)
  then show ?thesis
    by (simp add: fields_mapping_def Let_def writes_field_def)
next
  case (IRFieldPut x1 x2 x3 x4 x5)
  then show ?thesis
    by (simp add: fields_mapping_def Let_def writes_field_def)
next
  case (IRTypeInstruction x1 x2 x3 x4 x5)
  then show ?thesis
    by (simp add: fields_mapping_def Let_def writes_field_def split: option.splits)
next
  case (IRMethodInstruction x1 x2 x3 x4)
  then show ?thesis
    by (simp add: fields_mapping_def Let_def writes_field_def)
qed

lemma transfer_entry_Reg: "transfer_entry insn v = Reg r \<Longrightarrow> v = Reg r"
  by (auto simp: transfer_entry_def default_to_undefined_def overwritten_by_def Let_def
      split: option.splits if_splits)

lemma transfer_entry_keeps: "\<not> overwrites insn r \<Longrightarrow> transfer_entry insn (Reg r) = Reg r"
  by (auto simp: transfer_entry_def default_to_undefined_def overwritten_by_def overwrites_def Let_def
      split: option.splits)

lemma writes_field_put: "writes_field b insn f \<Longrightarrow> \<exists>k op obj. insn = IRFieldPut k op (src insn 0) obj f"
  by (cases insn) (simp_all add: writes_field_def src_def)

lemma write_consistent_init: "write_consistent (FieldsRegs_init b)"
  by (auto simp: write_consistent_def FieldsRegs_init_def dest!: map_of_SomeD)

lemma write_consistent_fields_mapping:
  assumes "write_consistent fregs"
  shows "write_consistent (fields_mapping insn fregs b True)"
  unfolding write_consistent_def
proof (intro allI impI)
  fix f w
  assume h: "field_to_iput_insn (fields_mapping insn fregs b True) f = Some (Some w)"
  show "field_to_reg (fields_mapping insn fregs b True) f \<noteq> None
        \<and> (\<forall>r. field_to_reg (fields_mapping insn fregs b True) f = Some (Reg r)
              \<longrightarrow> (\<exists>k op obj. w = IRFieldPut k op r obj f))"
  proof (cases "writes_field b insn f")
    case True
    with h have "w = insn" by (simp add: fields_mapping_iput_insn)
    with True writes_field_put [OF True] show ?thesis by (auto simp: fields_mapping_reg)
  next
    case False
    with h have i: "field_to_iput_insn fregs f = Some (Some w)" by (simp add: fields_mapping_iput_insn)
    with assms obtain v where v: "field_to_reg fregs f = Some v"
      unfolding write_consistent_def by blast
    from assms i v have "\<And>r. v = Reg r \<Longrightarrow> \<exists>k op obj. w = IRFieldPut k op r obj f"
      unfolding write_consistent_def by blast
    with False v show ?thesis
      by (auto simp: fields_mapping_reg dest!: transfer_entry_Reg)
  qed
qed

lemma write_consistent_meet:
  assumes "write_consistent this" and "write_consistent that" and "FieldsRegs_meet this that = Inr r"
  shows "write_consistent r"
proof -
  from assms(3) have nt: "\<not> meet_throws this that"
    by (auto simp: FieldsRegs_meet_def split: if_splits)
  from assms(3) nt have r: "r = \<lparr>
        field_to_reg = (\<lambda>k. case field_to_reg this k of
                              None \<Rightarrow> None
                            | Some a \<Rightarrow> Some (meet_reg a (the (field_to_reg that k)))),
        field_to_iput_insn = (\<lambda>k. case field_to_reg this k of
                              None \<Rightarrow> field_to_iput_insn this k
                            | Some a \<Rightarrow> meet_iput_insn a (field_to_iput_insn this k)
                                         (the (field_to_reg that k)) (field_to_iput_insn that k)) \<rparr>"
    by (simp add: FieldsRegs_meet_def)
  show ?thesis
    unfolding write_consistent_def
  proof (intro allI impI)
    fix f w
    assume h: "field_to_iput_insn r f = Some (Some w)"
    show "field_to_reg r f \<noteq> None
        \<and> (\<forall>x. field_to_reg r f = Some (Reg x) \<longrightarrow> (\<exists>k op obj. w = IRFieldPut k op x obj f))"
    proof (cases "field_to_reg this f")
      case None
      with h r have "field_to_iput_insn this f = Some (Some w)" by simp
      with assms(1) None show ?thesis unfolding write_consistent_def by blast
    next
      case (Some a)
      with nt obtain c where c: "field_to_reg that f = Some c"
        by (auto simp: meet_throws_def)
      from h r Some c have i: "meet_iput_insn a (field_to_iput_insn this f) c (field_to_iput_insn that f) = Some (Some w)"
        by simp
      from r Some c have g: "field_to_reg r f = Some (meet_reg a c)" by simp
      show ?thesis
      proof (cases "a = DEFAULT")
        case True
        with i have "field_to_iput_insn that f = Some (Some w)" by (simp add: meet_iput_insn_def)
        with assms(2) c have "\<And>x. c = Reg x \<Longrightarrow> \<exists>k op obj. w = IRFieldPut k op x obj f"
          unfolding write_consistent_def by blast
        with g True show ?thesis by (simp add: meet_reg_def)
      next
        case False
        with i have "field_to_iput_insn this f = Some (Some w)"
          by (auto simp: meet_iput_insn_def split: if_splits)
        with assms(1) Some have "\<And>x. a = Reg x \<Longrightarrow> \<exists>k op obj. w = IRFieldPut k op x obj f"
          unfolding write_consistent_def by blast
        with g False show ?thesis
          by (auto simp: meet_reg_def split: if_splits)
      qed
    qed
  qed
qed

lemma write_consistent_src:
  assumes "write_consistent fs" and "reg_at fs f = Reg r" and "iput_insn_at fs f = Some w"
  shows "src w 0 = r"
proof -
  from assms(3) have i: "field_to_iput_insn fs f = Some (Some w)"
    by (auto simp: iput_insn_at_def split: option.splits)
  with assms(1) obtain v where v: "field_to_reg fs f = Some v"
    unfolding write_consistent_def by blast
  with assms(2) have "v = Reg r" by (simp add: reg_at_def)
  with assms(1) i v obtain k op obj where "w = IRFieldPut k op r obj f"
    unfolding write_consistent_def by blast
  then show ?thesis by (simp add: src_def)
qed

lemma fields_mapping_keeps:
  assumes "field_to_reg fregs f = Some (Reg r)" and "\<not> overwrites insn r" and "\<not> writes_field b insn f"
  shows "field_to_reg (fields_mapping insn fregs b True) f = Some (Reg r)
       \<and> field_to_iput_insn (fields_mapping insn fregs b True) f = field_to_iput_insn fregs f"
  using assms by (simp add: fields_mapping_reg fields_mapping_iput_insn transfer_entry_keeps)

lemma fields_mapping_fold_keeps:
  assumes "field_to_reg fregs f = Some (Reg r)"
    and "\<forall>insn \<in> set mid. \<not> overwrites insn r \<and> \<not> writes_field b insn f"
  shows "field_to_reg (fold (\<lambda>insn fr. fields_mapping insn fr b True) mid fregs) f = Some (Reg r)
       \<and> field_to_iput_insn (fold (\<lambda>insn fr. fields_mapping insn fr b True) mid fregs) f
           = field_to_iput_insn fregs f"
  using assms
proof (induction mid arbitrary: fregs)
  case Nil
  then show ?case by simp
next
  case (Cons insn mid)
  from fields_mapping_keeps [of fregs f r insn b] Cons.prems
  have 1: "field_to_reg (fields_mapping insn fregs b True) f = Some (Reg r)"
    and 2: "field_to_iput_insn (fields_mapping insn fregs b True) f = field_to_iput_insn fregs f"
    by simp_all
  from Cons.IH [OF 1] Cons.prems(2) 2 show ?case by simp
qed

lemma plan_iget_direct:
  assumes "reg_at fs field = Reg r" and "iput_insn_at fs field = Some w"
    and "get_move_opcode w = Inr mop" and "map_of (move_replacements s) w = None"
  shows "plan_iget fs n insn field s =
     Goes_on (s\<lparr>move_replacements := AList.update insn (src w 0, mop) (move_replacements s),
                deletes := deletes s @ [insn]\<rparr>)"
  using assms by (simp add: plan_iget_def)

lemma ex_plan_linear:
  "plan_blocks ex_builder (straightline_states (\<lambda>insn fregs. fields_mapping insn fregs ex_builder True)
               (FieldsRegs_init ex_builder) (visited (ex_blocks ex_linear)))
             (registers_size ex_linear - ins_size ex_linear) (ex_blocks ex_linear) plan_init
        = Goes_on \<lparr>extra_regs = 0, null_reg = None,
                    deletes = [ex_new, ex_init, ex_put, ex_get],
                    move_replacements = [(ex_get, 0, MOVE)]\<rparr>"
  by (simp add: ex_defs run_defs visited_def)

lemma ex_read_states_linear:
  "read_state ex_builder (straightline_states (\<lambda>insn fregs. fields_mapping insn fregs ex_builder True)
               (FieldsRegs_init ex_builder) (visited (ex_blocks ex_linear))) ex_get = Some (Reg 0)"
  "read_write ex_builder (straightline_states (\<lambda>insn fregs. fields_mapping insn fregs ex_builder True)
               (FieldsRegs_init ex_builder) (visited (ex_blocks ex_linear))) ex_get = Some ex_put"
  by (simp_all add: read_state_def read_write_def visited_def ex_defs run_defs)

lemma ex_linear_reads:
  assumes "rd \<in> set (visited (ex_blocks ex_linear))"
  shows "rd = ex_get \<or> (read_state ex_builder fi rd = None \<and> read_write ex_builder fi rd = None)"
  using assms
  by (auto simp: visited_def ex_blocks_def ex_linear_def read_state_def read_write_def ex_new_def
      ex_init_def ex_put_def ex_ret_def)

text \<open>
  Claim C5. When the loop of \<^verbatim>\<open>remove_builder\<close> ends with the locals \<open>st\<close>: a visited
  read in state \<open>Reg r\<close> whose originating write \<open>w\<close> is the originating write of no
  visited read in state \<open>OVERWRITTEN\<close> is mapped to a move, of the kind of \<open>w\<close>, from the
  source register of \<open>w\<close>, and \<open>w\<close> itself gets no move; if no visited read is in state
  \<open>UNDEFINED\<close> or \<open>OVERWRITTEN\<close>, no register is allocated at all (\<^verbatim>\<open>extra_regs\<close> is 0 and
  there is no null register). One pass of the loop on such a read changes only the
  planned moves and the deletions. In a state of the analysis (a \<open>write_consistent\<close>
  one) the source register of the recorded write is \<open>r\<close>.
\<close>

theorem register_reused_directly:
  assumes "plan_blocks b fi n blocks plan_init = Goes_on st"
  shows "(\<forall>rd \<in> set (visited blocks). \<forall>r w.
            read_state b fi rd = Some (Reg r) \<and> read_write b fi rd = Some w
            \<and> (\<forall>rd' \<in> set (visited blocks).
                  read_write b fi rd' = Some w \<longrightarrow> read_state b fi rd' \<noteq> Some OVERWRITTEN)
            \<longrightarrow> (\<exists>mop. get_move_opcode w = Inr mop
                   \<and> map_of (move_replacements st) rd = Some (src w 0, mop)
                   \<and> map_of (move_replacements st) w = None))
     \<and> ((\<forall>rd \<in> set (visited blocks).
            read_state b fi rd \<noteq> Some UNDEFINED \<and> read_state b fi rd \<noteq> Some OVERWRITTEN)
          \<longrightarrow> extra_regs st = 0 \<and> null_reg st = None)
     \<and> (\<forall>fs field insn s r w mop.
           reg_at fs field = Reg r \<and> iput_insn_at fs field = Some w \<and> get_move_opcode w = Inr mop
           \<and> map_of (move_replacements s) w = None
           \<longrightarrow> plan_iget fs n insn field s =
                 Goes_on (s\<lparr>move_replacements := AList.update insn (src w 0, mop) (move_replacements s),
                            deletes := deletes s @ [insn]\<rparr>))
     \<and> (\<forall>fs field r w. write_consistent fs \<and> reg_at fs field = Reg r \<and> iput_insn_at fs field = Some w
           \<longrightarrow> src w 0 = r)"
proof (intro conjI)
  from plan_blocks_direct [OF assms]
  have a: "\<And>rd r w. rd \<in> set (visited blocks) \<Longrightarrow> read_state b fi rd = Some (Reg r)
          \<Longrightarrow> read_write b fi rd = Some w \<Longrightarrow> map_of (move_replacements st) w = None
          \<Longrightarrow> (\<exists>mop. get_move_opcode w = Inr mop
                 \<and> map_of (move_replacements st) rd = Some (src w 0, mop))"
    and z: "(\<forall>rd \<in> set (visited blocks).
            read_state b fi rd \<noteq> Some UNDEFINED \<and> read_state b fi rd \<noteq> Some OVERWRITTEN)
          \<longrightarrow> extra_regs st = 0 \<and> null_reg st = None"
    by (auto simp: direct_inv_def)
  from plan_blocks_bridge [OF assms]
  have br: "\<And>k v. map_of (move_replacements st) k = Some v \<Longrightarrow> is_iput (opcode k)
          \<Longrightarrow> (\<exists>rd \<in> set (visited blocks). read_state b fi rd = Some OVERWRITTEN \<and> read_write b fi rd = Some k)"
    by (auto simp: bridge_inv_def)
  from plan_blocks_reads_resolved [OF assms]
  have rr: "\<And>rd v. rd \<in> set (visited blocks) \<Longrightarrow> read_state b fi rd = Some v
      \<Longrightarrow> v \<noteq> DIFFERENT
        \<and> (v = UNDEFINED \<or> (\<exists>w mop. read_write b fi rd = Some w \<and> get_move_opcode w = Inr mop))"
    unfolding reads_resolved_def by blast
  show "\<forall>rd \<in> set (visited blocks). \<forall>r w.
            read_state b fi rd = Some (Reg r) \<and> read_write b fi rd = Some w
            \<and> (\<forall>rd' \<in> set (visited blocks).
                  read_write b fi rd' = Some w \<longrightarrow> read_state b fi rd' \<noteq> Some OVERWRITTEN)
            \<longrightarrow> (\<exists>mop. get_move_opcode w = Inr mop
                   \<and> map_of (move_replacements st) rd = Some (src w 0, mop)
                   \<and> map_of (move_replacements st) w = None)"
  proof (intro ballI allI impI)
    fix rd r w
    assume rd: "rd \<in> set (visited blocks)"
      and h: "read_state b fi rd = Some (Reg r) \<and> read_write b fi rd = Some w
            \<and> (\<forall>rd' \<in> set (visited blocks).
                  read_write b fi rd' = Some w \<longrightarrow> read_state b fi rd' \<noteq> Some OVERWRITTEN)"
    have none: "map_of (move_replacements st) w = None"
    proof (rule ccontr)
      assume "map_of (move_replacements st) w \<noteq> None"
      then obtain v where v: "map_of (move_replacements st) w = Some v" by auto
      from rr [OF rd, of "Reg r"] h have "is_iput (opcode w)"
        by (auto dest: put_is_iput)
      from br [OF v this] h show False by auto
    qed
    from a [OF rd _ _ none, of r] h none
    show "\<exists>mop. get_move_opcode w = Inr mop
                   \<and> map_of (move_replacements st) rd = Some (src w 0, mop)
                   \<and> map_of (move_replacements st) w = None"
      by auto
  qed
  show "(\<forall>rd \<in> set (visited blocks).
            read_state b fi rd \<noteq> Some UNDEFINED \<and> read_state b fi rd \<noteq> Some OVERWRITTEN)
          \<longrightarrow> extra_regs st = 0 \<and> null_reg st = None"
    by (rule z)
qed ((intro allI impI, elim conjE, rule plan_iget_direct write_consistent_src), assumption+)+

theorem register_reused_directly_witness:
  "plan_blocks ex_builder (straightline_states (\<lambda>insn fregs. fields_mapping insn fregs ex_builder True)
               (FieldsRegs_init ex_builder) (visited (ex_blocks ex_linear)))
             (registers_size ex_linear - ins_size ex_linear) (ex_blocks ex_linear) plan_init
        = Goes_on \<lparr>extra_regs = 0, null_reg = None,
                    deletes = [ex_new, ex_init, ex_put, ex_get],
                    move_replacements = [(ex_get, 0, MOVE)]\<rparr>
   \<and> ex_get \<in> set (visited (ex_blocks ex_linear))
   \<and> read_state ex_builder (straightline_states (\<lambda>insn fregs. fields_mapping insn fregs ex_builder True)
               (FieldsRegs_init ex_builder) (visited (ex_blocks ex_linear))) ex_get = Some (Reg 0)
   \<and> read_write ex_builder (straightline_states (\<lambda>insn fregs. fields_mapping insn fregs ex_builder True)
               (FieldsRegs_init ex_builder) (visited (ex_blocks ex_linear))) ex_get = Some ex_put
   \<and> get_move_opcode ex_put = Inr MOVE
   \<and> src ex_put 0 = 0
   \<and> map_of [(ex_get, 0 :: 16 word, MOVE)] ex_get = Some (src ex_put 0, MOVE)
   \<and> map_of [(ex_get, 0 :: 16 word, MOVE)] ex_put = None
   \<and> extra_regs \<lparr>extra_regs = 0, null_reg = None, deletes = [ex_new, ex_init, ex_put, ex_get],
                   move_replacements = [(ex_get, 0, MOVE)]\<rparr> = 0
   \<and> remove_builder ex_blocks ex_dataflow (ex_method (Some ex_linear)) ex_builder ex_builder =
       Inr (True, ex_method (Some \<lparr>entries =
               [MFLOW_OPCODE (IRInstruction 7 MOVE (Some 2) False [0] 0), MFLOW_OPCODE ex_ret],
               registers_size = 4, ins_size = 1\<rparr>))"
proof -
  let ?fi = "straightline_states (\<lambda>insn fregs. fields_mapping insn fregs ex_builder True)
               (FieldsRegs_init ex_builder) (visited (ex_blocks ex_linear))"
  let ?st = "\<lparr>extra_regs = 0, null_reg = None, deletes = [ex_new, ex_init, ex_put, ex_get],
                    move_replacements = [(ex_get, 0 :: 16 word, MOVE)]\<rparr>"
  note t = register_reused_directly [OF ex_plan_linear]
  have v: "ex_get \<in> set (visited (ex_blocks ex_linear))"
    by (simp add: visited_def ex_blocks_def ex_linear_def)
  have gm: "get_move_opcode ex_put = Inr MOVE"
    by (simp add: get_move_opcode_def ex_put_def is_iput_def)
  have s0: "src ex_put 0 = 0"
    by (simp add: src_def ex_put_def)
  have never: "\<forall>rd' \<in> set (visited (ex_blocks ex_linear)).
      read_write ex_builder ?fi rd' = Some ex_put \<longrightarrow> read_state ex_builder ?fi rd' \<noteq> Some OVERWRITTEN"
  proof (intro ballI impI)
    fix rd' assume "rd' \<in> set (visited (ex_blocks ex_linear))"
      and "read_write ex_builder ?fi rd' = Some ex_put"
    with ex_linear_reads [of rd' ?fi] have "rd' = ex_get" by auto
    with ex_read_states_linear show "read_state ex_builder ?fi rd' \<noteq> Some OVERWRITTEN" by simp
  qed
  have quiet: "\<forall>rd \<in> set (visited (ex_blocks ex_linear)).
      read_state ex_builder ?fi rd \<noteq> Some UNDEFINED \<and> read_state ex_builder ?fi rd \<noteq> Some OVERWRITTEN"
  proof (intro ballI)
    fix rd assume "rd \<in> set (visited (ex_blocks ex_linear))"
    with ex_linear_reads [of rd ?fi] ex_read_states_linear
    show "read_state ex_builder ?fi rd \<noteq> Some UNDEFINED \<and> read_state ex_builder ?fi rd \<noteq> Some OVERWRITTEN"
      by auto
  qed
  from t [THEN conjunct1, rule_format, OF v, of 0 ex_put] ex_read_states_linear never gm
  have 1: "map_of (move_replacements ?st) ex_get = Some (src ex_put 0, MOVE)
         \<and> map_of (move_replacements ?st) ex_put = None"
    by auto
  from t [THEN conjunct2, THEN conjunct1] quiet
  have 2: "extra_regs ?st = 0 \<and> null_reg ?st = None" by blast
  from ex_plan_linear v ex_read_states_linear gm s0 1 2 ex_run_linear show ?thesis
    by simp
qed

end
